theory Spec2Isabelle
  imports Complex_Main
begin

section \<open>Floating-point ratios\<close>

text \<open>
  \<^verbatim>\<open>New2QParams\<close> receives its two ratios as Go \<^verbatim>\<open>float64\<close> values. A float64 is
  NaN, an infinity or a finite rational (the two zeros are one value here: they compare
  equal and both convert to the integer 0). The comparisons of the source are exact on
  these, and every comparison with NaN is false.

  The conversion \<^verbatim>\<open>float64(size)\<close> and the product \<^verbatim>\<open>float64(size) * ratio\<close> round
  as IEEE 754 binary64 does, to the nearest value with a 53-bit significand, ties to
  the even significand: \<open>round64\<close> below, with the least exponent \<open>-1074\<close> of the
  subnormal range and the overflow to an infinity from \<open>2^1024\<close> on. The conversion
  \<^verbatim>\<open>int(...)\<close> truncates towards zero; Go leaves the result to the platform when the
  value is NaN, an infinity or outside the range of \<^verbatim>\<open>int\<close>, and the amd64 result (the
  least int64) is used here. \<^verbatim>\<open>int\<close> is the 64-bit integer.
\<close>

datatype float64 = NaN | Inf bool | Fin rat

fun f_lt :: "float64 \<Rightarrow> float64 \<Rightarrow> bool" where
  "f_lt NaN _ = False"
| "f_lt _ NaN = False"
| "f_lt (Fin a) (Fin b) = (a < b)"
| "f_lt (Fin a) (Inf p) = p"
| "f_lt (Inf p) (Fin b) = (\<not> p)"
| "f_lt (Inf p) (Inf q) = (\<not> p \<and> q)"

definition f_gt :: "float64 \<Rightarrow> float64 \<Rightarrow> bool" where
  "f_gt a b = f_lt b a"

fun f_le :: "float64 \<Rightarrow> float64 \<Rightarrow> bool" where
  "f_le NaN _ = False"
| "f_le _ NaN = False"
| "f_le (Fin a) (Fin b) = (a \<le> b)"
| "f_le (Fin a) (Inf p) = p"
| "f_le (Inf p) (Fin b) = (\<not> p)"
| "f_le (Inf p) (Inf q) = (\<not> p \<or> q)"

text \<open>\<open>bitlength n\<close> is the number of binary digits of a positive integer \<open>n\<close>.\<close>

function bitlength :: "int \<Rightarrow> int" where
  "bitlength n = (if n \<le> 0 then 0 else 1 + bitlength (n div 2))"
  by pat_completeness auto
termination
  by (relation "measure nat") auto

declare bitlength.simps [simp del]

definition pow2 :: "int \<Rightarrow> rat" where
  "pow2 e = (if 0 \<le> e then 2 ^ nat e else 1 / 2 ^ nat (- e))"

text \<open>For \<open>a > 0\<close>, \<open>ilog2 a\<close> is the exponent \<open>e\<close> with \<open>2^e \<le> a < 2^(e+1)\<close>.\<close>

definition ilog2 :: "rat \<Rightarrow> int" where
  "ilog2 a = (if 1 \<le> a then bitlength \<lfloor>a\<rfloor> - 1 else - bitlength (- \<lfloor>- (1 / a)\<rfloor> - 1))"

definition round_half_even :: "rat \<Rightarrow> int" where
  "round_half_even s =
     (let f = \<lfloor>s\<rfloor>; d = s - of_int f
      in if d < 1 / 2 then f else if 1 / 2 < d then f + 1 else if even f then f else f + 1)"

definition round64 :: "rat \<Rightarrow> float64" where
  "round64 r =
     (if r = 0 then Fin 0
      else
        (let a = \<bar>r\<bar>;
             q = max (ilog2 a - 52) (- 1074);
             v = of_int (round_half_even (a / pow2 q)) * pow2 q
         in if pow2 1024 \<le> v then Inf (0 < r) else Fin (if 0 < r then v else - v)))"

fun f_mul :: "float64 \<Rightarrow> float64 \<Rightarrow> float64" where
  "f_mul NaN _ = NaN"
| "f_mul _ NaN = NaN"
| "f_mul (Fin a) (Fin b) = round64 (a * b)"
| "f_mul (Fin a) (Inf p) = (if a = 0 then NaN else Inf (if 0 < a then p else \<not> p))"
| "f_mul (Inf p) (Fin b) = (if b = 0 then NaN else Inf (if 0 < b then p else \<not> p))"
| "f_mul (Inf p) (Inf q) = Inf (p = q)"

definition float64_of_int :: "int \<Rightarrow> float64" where
  "float64_of_int n = round64 (of_int n)"

fun int_of_float64 :: "float64 \<Rightarrow> int" where
  "int_of_float64 (Fin r) =
     (let t = (if r < 0 then - \<lfloor>- r\<rfloor> else \<lfloor>r\<rfloor>)
      in if - (2 ^ 63) \<le> t \<and> t < 2 ^ 63 then t else - (2 ^ 63))"
| "int_of_float64 _ = - (2 ^ 63)"

definition Default2QRecentRatio :: float64 where
  "Default2QRecentRatio = Fin (1 / 4)"

definition Default2QGhostEntries :: float64 where
  "Default2QGhostEntries = Fin (1 / 2)"


section \<open>The bounded ordered store\<close>

text \<open>
  Modelled from the spec: package \<^verbatim>\<open>common/cache/lru\<close> (type \<^verbatim>\<open>LruCache\<close> with
  \<^verbatim>\<open>New\<close>, \<^verbatim>\<open>WithSize\<close>, \<^verbatim>\<open>Get\<close>, \<^verbatim>\<open>Peek\<close>, \<^verbatim>\<open>Exist\<close>, \<^verbatim>\<open>Set\<close>,
  \<^verbatim>\<open>SetWithExpire\<close>, \<^verbatim>\<open>Delete\<close>, \<^verbatim>\<open>DeleteOldest\<close>, \<^verbatim>\<open>Len\<close>, \<^verbatim>\<open>Clear\<close>) is
  imported by the two-queue cache and is not among the sources. The spec describes it
  as a capacity-bounded mapping from key to value with recency ordering, which evicts
  the least-recently-touched entry on overflow, reads without touching the order on
  \<^verbatim>\<open>Peek\<close>, returns the evicted key from \<^verbatim>\<open>DeleteOldest\<close>, and treats an expired
  entry as absent on \<^verbatim>\<open>Get\<close>, \<^verbatim>\<open>Peek\<close> and \<^verbatim>\<open>Exist\<close>; expiry has whole-second
  resolution and is checked lazily, on reads only.

  The store is the list of its entries, least recently touched first. An entry is a
  key, a value and an optional expiry instant in Unix seconds. The clock that the
  store reads is the parameter \<open>now\<close> of the reading operations. An entry whose expiry
  instant is not after \<open>now\<close> is expired; it stays stored (and counted by \<^verbatim>\<open>Len\<close>)
  until it is overwritten, deleted or evicted. \<^verbatim>\<open>DeleteOldest\<close> on an empty store
  removes nothing and returns no key.
\<close>

type_synonym time = int

type_synonym ('k, 'v) entry = "'k \<times> 'v \<times> time option"

record ('k, 'v) LruCache =
  maxSize :: int
  lru :: "('k, 'v) entry list"

definition lru_New :: "int \<Rightarrow> ('k, 'v) LruCache" where
  "lru_New n = \<lparr>maxSize = n, lru = []\<rparr>"

definition expired :: "time \<Rightarrow> time option \<Rightarrow> bool" where
  "expired now e = (case e of None \<Rightarrow> False | Some t \<Rightarrow> t \<le> now)"

definition lru_Peek :: "time \<Rightarrow> 'k \<Rightarrow> ('k, 'v) LruCache \<Rightarrow> 'v option" where
  "lru_Peek now key c =
     (case map_of (lru c) key of
        None \<Rightarrow> None
      | Some (v, e) \<Rightarrow> if expired now e then None else Some v)"

definition lru_Exist :: "time \<Rightarrow> 'k \<Rightarrow> ('k, 'v) LruCache \<Rightarrow> bool" where
  "lru_Exist now key c = (lru_Peek now key c \<noteq> None)"

definition touch :: "'k \<Rightarrow> ('k, 'v) entry list \<Rightarrow> ('k, 'v) entry list" where
  "touch key xs = filter (\<lambda>x. fst x \<noteq> key) xs @ filter (\<lambda>x. fst x = key) xs"

definition lru_Get :: "time \<Rightarrow> 'k \<Rightarrow> ('k, 'v) LruCache \<Rightarrow> 'v option \<times> ('k, 'v) LruCache" where
  "lru_Get now key c =
     (case lru_Peek now key c of
        None \<Rightarrow> (None, c)
      | Some v \<Rightarrow> (Some v, c\<lparr>lru := touch key (lru c)\<rparr>))"

definition lru_put :: "'k \<Rightarrow> 'v \<Rightarrow> time option \<Rightarrow> ('k, 'v) LruCache \<Rightarrow> ('k, 'v) LruCache" where
  "lru_put key v e c =
     (let xs = filter (\<lambda>x. fst x \<noteq> key) (lru c) @ [(key, v, e)]
      in c\<lparr>lru := (if maxSize c < int (length xs) then tl xs else xs)\<rparr>)"

definition lru_Set :: "'k \<Rightarrow> 'v \<Rightarrow> ('k, 'v) LruCache \<Rightarrow> ('k, 'v) LruCache" where
  "lru_Set key v c = lru_put key v None c"

definition lru_SetWithExpire :: "'k \<Rightarrow> 'v \<Rightarrow> time \<Rightarrow> ('k, 'v) LruCache \<Rightarrow> ('k, 'v) LruCache" where
  "lru_SetWithExpire key v expires c = lru_put key v (Some expires) c"

definition lru_Delete :: "'k \<Rightarrow> ('k, 'v) LruCache \<Rightarrow> ('k, 'v) LruCache" where
  "lru_Delete key c = c\<lparr>lru := filter (\<lambda>x. fst x \<noteq> key) (lru c)\<rparr>"

definition lru_DeleteOldest :: "('k, 'v) LruCache \<Rightarrow> 'k option \<times> ('k, 'v) LruCache" where
  "lru_DeleteOldest c =
     (case lru c of
        [] \<Rightarrow> (None, c)
      | x # xs \<Rightarrow> (Some (fst x), c\<lparr>lru := xs\<rparr>))"

definition lru_Len :: "('k, 'v) LruCache \<Rightarrow> int" where
  "lru_Len c = int (length (lru c))"

definition lru_Clear :: "('k, 'v) LruCache \<Rightarrow> ('k, 'v) LruCache" where
  "lru_Clear c = c\<lparr>lru := []\<rparr>"

definition lru_keys :: "('k, 'v) LruCache \<Rightarrow> 'k list" where
  "lru_keys c = map fst (lru c)"


section \<open>The two-queue cache\<close>

text \<open>
  \<^verbatim>\<open>TwoQueueCache\<close> of \<^verbatim>\<open>twoQueue.go\<close>. Every method takes the mutex for its whole
  body, so a method is one atomic step on the record; the mutex itself is not
  modelled. A \<^verbatim>\<open>nil\<close> cache is \<open>None\<close>. \<^verbatim>\<open>Get\<close> returns \<open>None\<close> for
  \<^verbatim>\<open>(zero, false)\<close> and \<open>Some v\<close> for \<^verbatim>\<open>(v, true)\<close>.
\<close>

record ('k, 'v) TwoQueueCache =
  size_tq :: int
  recentSize :: int
  recent :: "('k, 'v) LruCache"
  frequent :: "('k, 'v) LruCache"
  recentEvict :: "('k, unit) LruCache"

definition New2QParams :: "int \<Rightarrow> float64 \<Rightarrow> float64 \<Rightarrow> ('k, 'v) TwoQueueCache option" where
  "New2QParams sz recentRatio ghostRatio =
     (if sz \<le> 0 then None
      else if f_lt recentRatio (Fin 0) \<or> f_gt recentRatio (Fin 1) then None
      else if f_lt ghostRatio (Fin 0) \<or> f_gt ghostRatio (Fin 1) then None
      else
        (let rs = int_of_float64 (f_mul (float64_of_int sz) recentRatio);
             evictSize = int_of_float64 (f_mul (float64_of_int sz) ghostRatio)
         in Some \<lparr>size_tq = sz, recentSize = rs,
                  recent = lru_New sz, frequent = lru_New sz,
                  recentEvict = lru_New evictSize\<rparr>))"

text \<open>\<^verbatim>\<open>New\<close> returns the cache and an error; the error is \<open>None\<close> for \<^verbatim>\<open>nil\<close>.\<close>

definition New :: "int \<Rightarrow> ('k, 'v) TwoQueueCache option \<times> string option" where
  "New sz = (New2QParams sz Default2QRecentRatio Default2QGhostEntries, None)"

definition Get :: "time \<Rightarrow> 'k \<Rightarrow> ('k, 'v) TwoQueueCache \<Rightarrow> 'v option \<times> ('k, 'v) TwoQueueCache" where
  "Get now key c =
     (case lru_Get now key (frequent c) of
        (Some val, f') \<Rightarrow> (Some val, c\<lparr>frequent := f'\<rparr>)
      | (None, f') \<Rightarrow>
          (case lru_Peek now key (recent c) of
             Some val \<Rightarrow>
               (Some val, c\<lparr>recent := lru_Delete key (recent c),
                             frequent := lru_Set key val f'\<rparr>)
           | None \<Rightarrow> (None, c\<lparr>frequent := f'\<rparr>)))"

definition ensureSpace :: "bool \<Rightarrow> ('k, 'v) TwoQueueCache \<Rightarrow> ('k, 'v) TwoQueueCache" where
  "ensureSpace isGhost c =
     (let recentLen = lru_Len (recent c); freqLen = lru_Len (frequent c)
      in if recentLen + freqLen < size_tq c then c
         else if recentLen > 0 \<and>
                 (recentLen > recentSize c \<or> (recentLen = recentSize c \<and> \<not> isGhost))
         then (case lru_DeleteOldest (recent c) of
                 (Some k, r') \<Rightarrow>
                   c\<lparr>recent := r', recentEvict := lru_Set k () (recentEvict c)\<rparr>
               | (None, r') \<Rightarrow> c\<lparr>recent := r'\<rparr>)
         else c\<lparr>frequent := snd (lru_DeleteOldest (frequent c))\<rparr>)"

definition Set :: "time \<Rightarrow> 'k \<Rightarrow> 'v \<Rightarrow> ('k, 'v) TwoQueueCache \<Rightarrow> ('k, 'v) TwoQueueCache" where
  "Set now key v c =
     (if lru_Exist now key (frequent c) then c\<lparr>frequent := lru_Set key v (frequent c)\<rparr>
      else if lru_Exist now key (recent c)
      then c\<lparr>recent := lru_Delete key (recent c), frequent := lru_Set key v (frequent c)\<rparr>
      else if lru_Exist now key (recentEvict c)
      then (let c1 = ensureSpace True c
            in c1\<lparr>recentEvict := lru_Delete key (recentEvict c1),
                   frequent := lru_Set key v (frequent c1)\<rparr>)
      else (let c1 = ensureSpace False c
            in c1\<lparr>recent := lru_Set key v (recent c1)\<rparr>))"

definition SetWithExpire ::
  "time \<Rightarrow> 'k \<Rightarrow> 'v \<Rightarrow> time \<Rightarrow> ('k, 'v) TwoQueueCache \<Rightarrow> ('k, 'v) TwoQueueCache" where
  "SetWithExpire now key v expires c =
     (if lru_Exist now key (frequent c) then c\<lparr>frequent := lru_Set key v (frequent c)\<rparr>
      else c\<lparr>recent := lru_SetWithExpire key v expires (recent c)\<rparr>)"

definition Delete :: "'k \<Rightarrow> ('k, 'v) TwoQueueCache \<Rightarrow> ('k, 'v) TwoQueueCache" where
  "Delete key c =
     c\<lparr>frequent := lru_Delete key (frequent c),
       recent := lru_Delete key (recent c),
       recentEvict := lru_Delete key (recentEvict c)\<rparr>"

definition Clear :: "('k, 'v) TwoQueueCache \<Rightarrow> ('k, 'v) TwoQueueCache" where
  "Clear c =
     c\<lparr>recent := lru_Clear (recent c),
       frequent := lru_Clear (frequent c),
       recentEvict := lru_Clear (recentEvict c)\<rparr>"


section \<open>Sequences of public operations\<close>

text \<open>
  A call of a public method, with the reading of the clock at which it runs. \<open>run\<close>
  applies a sequence of timed calls from left to right, discarding the results of
  \<^verbatim>\<open>Get\<close>.
\<close>

datatype ('k, 'v) call =
    CSet 'k 'v
  | CSetWithExpire 'k 'v time
  | CGet 'k
  | CDelete 'k
  | CClear

fun step :: "time \<Rightarrow> ('k, 'v) call \<Rightarrow> ('k, 'v) TwoQueueCache \<Rightarrow> ('k, 'v) TwoQueueCache" where
  "step now (CSet k v) c = Set now k v c"
| "step now (CSetWithExpire k v t) c = SetWithExpire now k v t c"
| "step now (CGet k) c = snd (Get now k c)"
| "step now (CDelete k) c = Delete k c"
| "step now CClear c = Clear c"

fun run :: "(time \<times> ('k, 'v) call) list \<Rightarrow> ('k, 'v) TwoQueueCache \<Rightarrow> ('k, 'v) TwoQueueCache" where
  "run [] c = c"
| "run ((t, x) # xs) c = run xs (step t x c)"

definition total_len :: "('k, 'v) TwoQueueCache \<Rightarrow> int" where
  "total_len c = lru_Len (recent c) + lru_Len (frequent c)"


section \<open>Auxiliary definitions\<close>

text \<open>
  The invariant behind the disjointness of recent and frequent, relative to a reading
  \<open>t\<close> of the clock: recent holds each key once; no entry of frequent carries an
  expiry; and an entry of recent whose key is also stored in frequent has expired by
  \<open>t\<close>.
\<close>

definition wf2q :: "time \<Rightarrow> ('k, 'v) TwoQueueCache \<Rightarrow> bool" where
  "wf2q t c =
     (distinct (lru_keys (recent c)) \<and>
      (\<forall>x \<in> set (lru (frequent c)). snd (snd x) = None) \<and>
      (\<forall>x \<in> set (lru (recent c)).
          fst x \<in> set (lru_keys (frequent c)) \<longrightarrow> expired t (snd (snd x))))"

text \<open>
  The states of the test \<^verbatim>\<open>TestTwoQCache\<close>: capacity 4 with the default ratios, keys
  and values strings. \<open>st4 r f g\<close> is the cache holding \<open>r\<close> in recent, \<open>f\<close> in
  frequent and \<open>g\<close> in the ghost store, each least recently touched first.
\<close>

definition st4 ::
  "(string, string) entry list \<Rightarrow> (string, string) entry list \<Rightarrow> (string, unit) entry list
     \<Rightarrow> (string, string) TwoQueueCache" where
  "st4 r f g =
     \<lparr>size_tq = 4, recentSize = 1, recent = \<lparr>maxSize = 4, lru = r\<rparr>,
      frequent = \<lparr>maxSize = 4, lru = f\<rparr>, recentEvict = \<lparr>maxSize = 2, lru = g\<rparr>\<rparr>"

definition e1 :: "(string, string) entry" where "e1 = (''1'', ''one'', None)"
definition e2 :: "(string, string) entry" where "e2 = (''2'', ''two'', None)"
definition e3 :: "(string, string) entry" where "e3 = (''3'', ''three'', None)"
definition e4 :: "(string, string) entry" where "e4 = (''4'', ''four'', None)"
definition e5 :: "(string, string) entry" where "e5 = (''5'', ''five'', None)"
definition e6 :: "(string, string) entry" where "e6 = (''6'', ''six'', None)"

definition g1 :: "(string, unit) entry" where "g1 = (''1'', (), None)"
definition g2 :: "(string, unit) entry" where "g2 = (''2'', (), None)"
definition g3 :: "(string, unit) entry" where "g3 = (''3'', (), None)"

text \<open>The parameters of a cache, which no operation changes.\<close>

definition params :: "('k, 'v) TwoQueueCache \<Rightarrow> int \<times> int \<times> int \<times> int \<times> int" where
  "params c = (size_tq c, recentSize c, maxSize (recent c), maxSize (frequent c),
               maxSize (recentEvict c))"

text \<open>Entries of the same scenario that carry the expiry instant 60.\<close>

definition x1 :: "(string, string) entry" where "x1 = (''1'', ''uno'', Some 60)"
definition x2 :: "(string, string) entry" where "x2 = (''2'', ''two'', Some 60)"
definition x3 :: "(string, string) entry" where "x3 = (''3'', ''three'', Some 60)"
definition x4 :: "(string, string) entry" where "x4 = (''4'', ''four'', Some 60)"
definition x5 :: "(string, string) entry" where "x5 = (''5'', ''five'', Some 60)"

text \<open>The calls other than \<^verbatim>\<open>SetWithExpire\<close>.\<close>

fun plain :: "('k, 'v) call \<Rightarrow> bool" where
  "plain (CSetWithExpire k v t) = False"
| "plain _ = True"

text \<open>
  The invariant of the runs without \<^verbatim>\<open>SetWithExpire\<close>: no stored entry carries an
  expiry, recent holds each key once, and the three stores hold pairwise disjoint sets
  of keys.
\<close>

definition no_expiry :: "('k, 'v) LruCache \<Rightarrow> bool" where
  "no_expiry s = (\<forall>x \<in> set (lru s). snd (snd x) = None)"

definition separated :: "('k, 'v) TwoQueueCache \<Rightarrow> bool" where
  "separated c =
     (no_expiry (recent c) \<and> no_expiry (frequent c) \<and> no_expiry (recentEvict c) \<and>
      distinct (lru_keys (recent c)) \<and>
      set (lru_keys (recent c)) \<inter> set (lru_keys (frequent c)) = {} \<and>
      set (lru_keys (recentEvict c)) \<inter> set (lru_keys (recent c)) = {} \<and>
      set (lru_keys (recentEvict c)) \<inter> set (lru_keys (frequent c)) = {})"

text \<open>A cache of capacity 1 whose target for recent is the whole capacity.\<close>

definition st1 ::
  "(string, string) entry list \<Rightarrow> (string, string) entry list \<Rightarrow> (string, unit) entry list
     \<Rightarrow> (string, string) TwoQueueCache" where
  "st1 r f g =
     \<lparr>size_tq = 1, recentSize = 1, recent = \<lparr>maxSize = 1, lru = r\<rparr>,
      frequent = \<lparr>maxSize = 1, lru = f\<rparr>, recentEvict = \<lparr>maxSize = 1, lru = g\<rparr>\<rparr>"


section \<open>Evaluating the float64 arithmetic\<close>

lemma bitlength_nonpos: "n \<le> 0 \<Longrightarrow> bitlength n = 0"
  by (simp add: bitlength.simps)

lemma bitlength_pos: "0 < n \<Longrightarrow> bitlength n = 1 + bitlength (n div 2)"
  by (subst bitlength.simps) simp

lemma floor_rat_numeral: "\<lfloor>numeral a / numeral b :: rat\<rfloor> = numeral a div numeral b"
  using floor_divide_of_int_eq [of "numeral a" "numeral b", where ?'a = rat] by simp

lemma floor_rat_minus_numeral:
  "\<lfloor>- (numeral a / numeral b) :: rat\<rfloor> = - numeral a div numeral b"
  using floor_divide_of_int_eq [of "- numeral a" "numeral b", where ?'a = rat] by simp

lemmas round64_eval = round64_def ilog2_def pow2_def round_half_even_def Let_def
  bitlength_nonpos bitlength_pos floor_rat_numeral floor_rat_minus_numeral

lemma round64_1: "round64 1 = Fin 1"
  by (simp add: round64_eval)

lemma round64_2: "round64 2 = Fin 2"
  by (simp add: round64_eval)

lemma round64_4: "round64 4 = Fin 4"
  by (simp add: round64_eval)

text \<open>
  The decimal literal \<^verbatim>\<open>0.3\<close> is the float64 \<open>5404319552844595 / 2^54\<close>, and ten times
  it rounds to 3: with capacity 10 and the ratios 0.3 and 0.5 the target for recent is
  3 and the ghost capacity 5. The capacity \<open>2^63 - 1\<close> converts to the float64 \<open>2^63\<close>,
  which is outside the range of \<^verbatim>\<open>int\<close>.
\<close>

lemma round64_three_tenths: "round64 (3 / 10) = Fin (5404319552844595 / 2 ^ 54)"
  by (simp add: round64_eval)

lemma New2QParams_10:
  "(New2QParams 10 (Fin (5404319552844595 / 2 ^ 54)) (Fin (1 / 2))
      :: (string, string) TwoQueueCache option) =
   Some \<lparr>size_tq = 10, recentSize = 3, recent = lru_New 10, frequent = lru_New 10,
         recentEvict = lru_New 5\<rparr>"
  by (simp add: New2QParams_def f_gt_def float64_of_int_def round64_eval)

lemma New2QParams_MaxInt64:
  "(New2QParams (2 ^ 63 - 1) (Fin 1) (Fin 1) :: (string, string) TwoQueueCache option) =
   Some \<lparr>size_tq = 2 ^ 63 - 1, recentSize = - (2 ^ 63), recent = lru_New (2 ^ 63 - 1),
         frequent = lru_New (2 ^ 63 - 1), recentEvict = lru_New (- (2 ^ 63))\<rparr>"
  by (simp add: New2QParams_def f_gt_def float64_of_int_def round64_eval)


section \<open>Lemmas about the store\<close>

lemmas lru_defs = lru_New_def expired_def lru_Peek_def lru_Exist_def touch_def lru_Get_def
  lru_put_def lru_Set_def lru_SetWithExpire_def lru_Delete_def lru_DeleteOldest_def
  lru_Len_def lru_Clear_def lru_keys_def

lemmas tq_defs = Get_def ensureSpace_def Set_def SetWithExpire_def Delete_def Clear_def
  total_len_def

lemmas ent_defs = e1_def e2_def e3_def e4_def e5_def e6_def g1_def g2_def g3_def


lemma expired_mono: "expired t e \<Longrightarrow> t \<le> t' \<Longrightarrow> expired t' e"
  by (auto simp: expired_def split: option.splits)

lemma set_tl_subset: "set (tl xs) \<subseteq> set xs"
  by (cases xs) auto

lemma lru_put_entries:
  "set (lru (lru_put k v e c)) \<subseteq> insert (k, v, e) {x \<in> set (lru c). fst x \<noteq> k}"
proof -
  let ?xs = "filter (\<lambda>x. fst x \<noteq> k) (lru c) @ [(k, v, e)]"
  have "set ?xs = insert (k, v, e) {x \<in> set (lru c). fst x \<noteq> k}" by auto
  moreover have "set (lru (lru_put k v e c)) \<subseteq> set ?xs"
    using set_tl_subset [of ?xs] by (simp add: lru_put_def Let_def)
  ultimately show ?thesis by simp
qed

lemma lru_put_keys: "set (lru_keys (lru_put k v e c)) \<subseteq> insert k (set (lru_keys c))"
  using lru_put_entries [of k v e c] by (fastforce simp: lru_keys_def)

lemma lru_put_distinct:
  assumes "distinct (lru_keys c)"
  shows "distinct (lru_keys (lru_put k v e c))"
proof -
  let ?xs = "filter (\<lambda>x. fst x \<noteq> k) (lru c) @ [(k, v, e)]"
  have "distinct (map fst ?xs)"
    using assms by (auto simp: lru_keys_def distinct_map_filter)
  then have "distinct (map fst (tl ?xs))"
    by (metis distinct_tl map_tl)
  then show ?thesis
    using \<open>distinct (map fst ?xs)\<close> by (simp add: lru_put_def Let_def lru_keys_def)
qed

lemma lru_Delete_entries: "set (lru (lru_Delete k c)) = {x \<in> set (lru c). fst x \<noteq> k}"
  by (auto simp: lru_Delete_def)

lemma lru_Delete_distinct: "distinct (lru_keys c) \<Longrightarrow> distinct (lru_keys (lru_Delete k c))"
  by (simp add: lru_Delete_def lru_keys_def distinct_map_filter)

lemma lru_DeleteOldest_entries: "set (lru (snd (lru_DeleteOldest c))) \<subseteq> set (lru c)"
  by (auto simp: lru_DeleteOldest_def split: list.splits)

lemma lru_DeleteOldest_distinct:
  "distinct (lru_keys c) \<Longrightarrow> distinct (lru_keys (snd (lru_DeleteOldest c)))"
  by (auto simp: lru_DeleteOldest_def lru_keys_def split: list.splits)

lemma lru_Get_entries: "set (lru (snd (lru_Get now k c))) = set (lru c)"
  by (auto simp: lru_Get_def touch_def split: option.splits)

lemma lru_Peek_stored: "lru_Peek now k c = Some v \<Longrightarrow> k \<in> set (lru_keys c)"
  by (auto simp: lru_Peek_def lru_keys_def split: option.splits if_splits dest!: map_of_SomeD) force

lemma lru_Exist_stored: "lru_Exist now k c \<Longrightarrow> k \<in> set (lru_keys c)"
  by (auto simp: lru_Exist_def dest: lru_Peek_stored)

lemma no_expiry_Exist:
  assumes "\<forall>x \<in> set (lru c). snd (snd x) = None"
  shows "lru_Exist now k c = (k \<in> set (lru_keys c))"
proof
  assume "lru_Exist now k c" then show "k \<in> set (lru_keys c)" by (rule lru_Exist_stored)
next
  assume "k \<in> set (lru_keys c)"
  then obtain v e where m: "map_of (lru c) k = Some (v, e)"
    by (metis lru_keys_def map_of_eq_None_iff not_Some_eq prod.collapse set_map)
  then have "(k, v, e) \<in> set (lru c)" by (rule map_of_SomeD)
  with assms have "e = None" by fastforce
  with m show "lru_Exist now k c" by (simp add: lru_Exist_def lru_Peek_def expired_def)
qed

lemma not_Exist_expired:
  assumes "distinct (lru_keys c)" and "\<not> lru_Exist now k c" and "x \<in> set (lru c)" and "fst x = k"
  shows "expired now (snd (snd x))"
proof -
  have "map_of (lru c) k = Some (snd x)"
    using assms(1,3,4) by (metis lru_keys_def map_of_is_SomeI prod.collapse)
  with assms(2) show ?thesis
    by (auto simp: lru_Exist_def lru_Peek_def split: prod.splits if_splits)
qed

lemma lru_put_lookup:
  assumes "0 < maxSize c"
  shows "map_of (lru (lru_put k v e c)) k = Some (v, e)"
proof -
  let ?f = "filter (\<lambda>x. fst x \<noteq> k) (lru c)"
  have nk: "map_of ys k = None" if "set ys \<subseteq> set ?f" for ys :: "('a, 'b) entry list"
    using that by (force simp: map_of_eq_None_iff)
  have full: "map_of (?f @ [(k, v, e)]) k = Some (v, e)"
    using nk [of ?f] by (simp add: map_add_def)
  show ?thesis
  proof (cases ?f)
    case Nil
    then show ?thesis using assms by (simp add: lru_put_def Let_def)
  next
    case (Cons y ys)
    then have "set ys \<subseteq> set ?f" by auto
    then have "map_of (ys @ [(k, v, e)]) k = Some (v, e)"
      using nk [of ys] by (simp add: map_add_def)
    then show ?thesis using full Cons by (simp add: lru_put_def Let_def)
  qed
qed

lemma lru_put_maxSize [simp]: "maxSize (lru_put k v e c) = maxSize c"
  by (simp add: lru_put_def Let_def)

lemma lru_Delete_maxSize [simp]: "maxSize (lru_Delete k c) = maxSize c"
  by (simp add: lru_Delete_def)

lemma lru_DeleteOldest_maxSize [simp]: "maxSize (snd (lru_DeleteOldest c)) = maxSize c"
  by (simp add: lru_DeleteOldest_def split: list.splits)

lemma lru_Get_maxSize [simp]: "maxSize (snd (lru_Get now k c)) = maxSize c"
  by (simp add: lru_Get_def split: option.splits)

lemma lru_Clear_maxSize [simp]: "maxSize (lru_Clear c) = maxSize c"
  by (simp add: lru_Clear_def)

lemma lru_Set_keys:
  "lru_keys (lru_Set k v c) =
     (let ks = filter (\<lambda>x. x \<noteq> k) (lru_keys c) @ [k]
      in if maxSize c < int (length ks) then tl ks else ks)"
  by (simp add: lru_Set_def lru_put_def lru_keys_def Let_def filter_map comp_def map_tl)

lemma lru_Delete_gone: "k \<notin> set (lru_keys (lru_Delete k s))"
  by (auto simp: lru_Delete_def lru_keys_def)

lemma lru_Delete_miss: "lru_Peek now k (lru_Delete k s) = None"
  using lru_Delete_gone [of k s] lru_Peek_stored [of now k "lru_Delete k s"]
  by (cases "lru_Peek now k (lru_Delete k s)") auto

lemma lru_Delete_absent:
  assumes "k \<notin> set (lru_keys s)"
  shows "lru_Delete k s = s"
proof -
  have "filter (\<lambda>x. fst x \<noteq> k) (lru s) = lru s"
    using assms by (auto simp: lru_keys_def filter_id_conv)
  then show ?thesis by (simp add: lru_Delete_def)
qed


section \<open>Recent and frequent: the invariant of every run\<close>

text \<open>\<^verbatim>\<open>ensureSpace\<close> only removes entries from recent and from frequent.\<close>

lemma ensureSpace_recent_entries:
  "set (lru (recent (ensureSpace g c))) \<subseteq> set (lru (recent c))"
  using lru_DeleteOldest_entries [of "recent c"]
  by (auto simp: ensureSpace_def Let_def split: prod.splits option.splits)

lemma ensureSpace_recent_distinct:
  "distinct (lru_keys (recent c)) \<Longrightarrow> distinct (lru_keys (recent (ensureSpace g c)))"
  using lru_DeleteOldest_distinct [of "recent c"]
  by (auto simp: ensureSpace_def Let_def split: prod.splits option.splits)

lemma ensureSpace_frequent_entries:
  "set (lru (frequent (ensureSpace g c))) \<subseteq> set (lru (frequent c))"
  using lru_DeleteOldest_entries [of "frequent c"]
  by (auto simp: ensureSpace_def Let_def split: prod.splits option.splits)

lemma ensureSpace_wf2q:
  assumes "wf2q t c"
  shows "wf2q t (ensureSpace g c)"
proof -
  have k: "set (lru_keys (frequent (ensureSpace g c))) \<subseteq> set (lru_keys (frequent c))"
    using ensureSpace_frequent_entries [of g c] by (auto simp: lru_keys_def)
  show ?thesis
    using assms ensureSpace_recent_entries [of g c] ensureSpace_frequent_entries [of g c]
      ensureSpace_recent_distinct [of c g] k
    unfolding wf2q_def by blast
qed

lemma wf2q_mono: "wf2q t c \<Longrightarrow> t \<le> t' \<Longrightarrow> wf2q t' c"
  unfolding wf2q_def by (blast intro: expired_mono)

lemma wf2q_I:
  assumes "distinct (lru_keys (recent c))"
    and "\<And>x. x \<in> set (lru (frequent c)) \<Longrightarrow> snd (snd x) = None"
    and "\<And>x. x \<in> set (lru (recent c)) \<Longrightarrow> fst x \<in> set (lru_keys (frequent c))
           \<Longrightarrow> expired t (snd (snd x))"
  shows "wf2q t c"
  unfolding wf2q_def using assms by blast

lemma wf2q_distinct: "wf2q t c \<Longrightarrow> distinct (lru_keys (recent c))"
  unfolding wf2q_def by blast

lemma wf2q_no_expiry: "wf2q t c \<Longrightarrow> x \<in> set (lru (frequent c)) \<Longrightarrow> snd (snd x) = None"
  unfolding wf2q_def by blast

lemma wf2q_overlap:
  "wf2q t c \<Longrightarrow> x \<in> set (lru (recent c)) \<Longrightarrow> fst x \<in> set (lru_keys (frequent c))
     \<Longrightarrow> expired t (snd (snd x))"
  unfolding wf2q_def by blast

text \<open>Storing \<open>k\<close> in frequent keeps the invariant when recent holds no live copy of \<open>k\<close>.\<close>

lemma wf2q_frequent_Set:
  assumes wf: "wf2q t c"
    and r: "\<And>x. x \<in> set (lru (recent c)) \<Longrightarrow> fst x = k \<Longrightarrow> expired t (snd (snd x))"
  shows "wf2q t (c\<lparr>frequent := lru_Set k v (frequent c)\<rparr>)"
proof (rule wf2q_I)
  let ?c = "c\<lparr>frequent := lru_Set k v (frequent c)\<rparr>"
  show "distinct (lru_keys (recent ?c))"
    using wf2q_distinct [OF wf] by simp
  have e: "set (lru (lru_Set k v (frequent c))) \<subseteq> insert (k, v, None) (set (lru (frequent c)))"
    using lru_put_entries [of k v None "frequent c"] by (auto simp: lru_Set_def)
  show "snd (snd x) = None" if "x \<in> set (lru (frequent ?c))" for x
  proof -
    from that e have "x = (k, v, None) \<or> x \<in> set (lru (frequent c))" by auto
    then show ?thesis
    proof
      assume "x = (k, v, None)" then show ?thesis by simp
    next
      assume "x \<in> set (lru (frequent c))" then show ?thesis by (rule wf2q_no_expiry [OF wf])
    qed
  qed
  have ks: "set (lru_keys (lru_Set k v (frequent c))) \<subseteq> insert k (set (lru_keys (frequent c)))"
    using lru_put_keys [of k v None "frequent c"] by (simp add: lru_Set_def)
  show "expired t (snd (snd x))"
    if "x \<in> set (lru (recent ?c))" and "fst x \<in> set (lru_keys (frequent ?c))" for x
  proof -
    from that have x: "x \<in> set (lru (recent c))" by simp
    from that ks have "fst x = k \<or> fst x \<in> set (lru_keys (frequent c))" by auto
    then show ?thesis
    proof
      assume "fst x = k" then show ?thesis by (rule r [OF x])
    next
      assume "fst x \<in> set (lru_keys (frequent c))" then show ?thesis by (rule wf2q_overlap [OF wf x])
    qed
  qed
qed

lemma wf2q_recent_Delete:
  assumes wf: "wf2q t c"
  shows "wf2q t (c\<lparr>recent := lru_Delete k (recent c)\<rparr>)"
proof (rule wf2q_I)
  let ?c = "c\<lparr>recent := lru_Delete k (recent c)\<rparr>"
  show "distinct (lru_keys (recent ?c))"
    using lru_Delete_distinct [OF wf2q_distinct [OF wf]] by simp
  show "snd (snd x) = None" if "x \<in> set (lru (frequent ?c))" for x
  proof -
    from that have "x \<in> set (lru (frequent c))" by simp
    then show ?thesis by (rule wf2q_no_expiry [OF wf])
  qed
  show "expired t (snd (snd x))"
    if "x \<in> set (lru (recent ?c))" and "fst x \<in> set (lru_keys (frequent ?c))" for x
  proof -
    from that(1) have x: "x \<in> set (lru (recent c))" by (simp add: lru_Delete_entries)
    from that(2) have "fst x \<in> set (lru_keys (frequent c))" by simp
    then show ?thesis by (rule wf2q_overlap [OF wf x])
  qed
qed

lemma wf2q_recent_put:
  assumes wf: "wf2q t c" and nk: "k \<notin> set (lru_keys (frequent c))"
  shows "wf2q t (c\<lparr>recent := lru_put k v e (recent c)\<rparr>)"
proof (rule wf2q_I)
  let ?c = "c\<lparr>recent := lru_put k v e (recent c)\<rparr>"
  show "distinct (lru_keys (recent ?c))"
    using lru_put_distinct [OF wf2q_distinct [OF wf]] by simp
  show "snd (snd x) = None" if "x \<in> set (lru (frequent ?c))" for x
  proof -
    from that have "x \<in> set (lru (frequent c))" by simp
    then show ?thesis by (rule wf2q_no_expiry [OF wf])
  qed
  show "expired t (snd (snd x))"
    if "x \<in> set (lru (recent ?c))" and "fst x \<in> set (lru_keys (frequent ?c))" for x
  proof -
    from that(1) lru_put_entries [of k v e "recent c"]
    have "x = (k, v, e) \<or> x \<in> set (lru (recent c))" by auto
    moreover from that(2) nk have "fst x \<noteq> k" by auto
    ultimately have x: "x \<in> set (lru (recent c))" by auto
    from that(2) have "fst x \<in> set (lru_keys (frequent c))" by simp
    then show ?thesis by (rule wf2q_overlap [OF wf x])
  qed
qed

lemma wf2q_frequent_touch:
  assumes wf: "wf2q t c"
  shows "wf2q t (c\<lparr>frequent := snd (lru_Get now k (frequent c))\<rparr>)"
proof (rule wf2q_I)
  let ?c = "c\<lparr>frequent := snd (lru_Get now k (frequent c))\<rparr>"
  have ks: "set (lru_keys (snd (lru_Get now k (frequent c)))) = set (lru_keys (frequent c))"
    using lru_Get_entries [of now k "frequent c"] by (simp add: lru_keys_def)
  show "distinct (lru_keys (recent ?c))"
    using wf2q_distinct [OF wf] by simp
  show "snd (snd x) = None" if "x \<in> set (lru (frequent ?c))" for x
  proof -
    from that have "x \<in> set (lru (frequent c))" by (simp add: lru_Get_entries)
    then show ?thesis by (rule wf2q_no_expiry [OF wf])
  qed
  show "expired t (snd (snd x))"
    if "x \<in> set (lru (recent ?c))" and "fst x \<in> set (lru_keys (frequent ?c))" for x
  proof -
    from that(1) have x: "x \<in> set (lru (recent c))" by simp
    from that(2) ks have "fst x \<in> set (lru_keys (frequent c))" by simp
    then show ?thesis by (rule wf2q_overlap [OF wf x])
  qed
qed


lemma wf2q_frequent_Delete:
  assumes wf: "wf2q t c"
  shows "wf2q t (c\<lparr>frequent := lru_Delete k (frequent c)\<rparr>)"
proof (rule wf2q_I)
  let ?c = "c\<lparr>frequent := lru_Delete k (frequent c)\<rparr>"
  show "distinct (lru_keys (recent ?c))"
    using wf2q_distinct [OF wf] by simp
  show "snd (snd x) = None" if "x \<in> set (lru (frequent ?c))" for x
  proof -
    from that have "x \<in> set (lru (frequent c))" by (simp add: lru_Delete_entries)
    then show ?thesis by (rule wf2q_no_expiry [OF wf])
  qed
  show "expired t (snd (snd x))"
    if "x \<in> set (lru (recent ?c))" and "fst x \<in> set (lru_keys (frequent ?c))" for x
  proof -
    from that(1) have x: "x \<in> set (lru (recent c))" by simp
    from that(2) have "fst x \<in> set (lru_keys (frequent c))"
      by (auto simp: lru_keys_def lru_Delete_entries)
    then show ?thesis by (rule wf2q_overlap [OF wf x])
  qed
qed

lemma wf2q_recentEvict [simp]: "wf2q t (c\<lparr>recentEvict := g\<rparr>) = wf2q t c"
  by (simp add: wf2q_def)

lemma lru_Get_None: "lru_Peek now k c = None \<Longrightarrow> lru_Get now k c = (None, c)"
  by (simp add: lru_Get_def)

lemma lru_Get_fst: "fst (lru_Get now k c) = lru_Peek now k c"
  by (simp add: lru_Get_def split: option.splits)

lemma Get_eq:
  "Get now k c =
     (case lru_Peek now k (frequent c) of
        Some val \<Rightarrow> (Some val, c\<lparr>frequent := snd (lru_Get now k (frequent c))\<rparr>)
      | None \<Rightarrow>
          (case lru_Peek now k (recent c) of
             Some val \<Rightarrow>
               (Some val, c\<lparr>recent := lru_Delete k (recent c),
                             frequent := lru_Set k val (frequent c)\<rparr>)
           | None \<Rightarrow> (None, c)))"
  by (simp add: Get_def lru_Get_def split: option.splits)

lemma promote_wf2q:
  assumes wf: "wf2q t c"
  shows "wf2q t (c\<lparr>recent := lru_Delete k (recent c), frequent := lru_Set k v (frequent c)\<rparr>)"
proof -
  let ?c1 = "c\<lparr>recent := lru_Delete k (recent c)\<rparr>"
  have "wf2q t ?c1" by (rule wf2q_recent_Delete [OF wf])
  moreover have "expired t (snd (snd x))" if "x \<in> set (lru (recent ?c1))" and "fst x = k" for x
    using that by (simp add: lru_Delete_entries)
  ultimately have "wf2q t (?c1\<lparr>frequent := lru_Set k v (frequent ?c1)\<rparr>)"
    by (rule wf2q_frequent_Set)
  then show ?thesis by simp
qed

lemma overwrite_wf2q:
  assumes wf: "wf2q t c" and ex: "lru_Exist t k (frequent c)"
  shows "wf2q t (c\<lparr>frequent := lru_Set k v (frequent c)\<rparr>)"
proof (rule wf2q_frequent_Set [OF wf])
  fix x assume x: "x \<in> set (lru (recent c))" and "fst x = k"
  with lru_Exist_stored [OF ex] have "fst x \<in> set (lru_keys (frequent c))" by simp
  then show "expired t (snd (snd x))" by (rule wf2q_overlap [OF wf x])
qed

lemma Get_wf2q:
  assumes wf: "wf2q t c"
  shows "wf2q t (snd (Get t k c))"
  using wf wf2q_frequent_touch [OF wf, of t k] promote_wf2q [OF wf, of k]
  by (simp add: Get_eq split: option.splits)

lemma not_Exist_frequent:
  assumes wf: "wf2q t c" and ne: "\<not> lru_Exist now k (frequent c)"
  shows "k \<notin> set (lru_keys (frequent c))"
proof -
  have "\<forall>x \<in> set (lru (frequent c)). snd (snd x) = None"
    using wf2q_no_expiry [OF wf] by blast
  from no_expiry_Exist [OF this, of now k] ne show ?thesis by simp
qed

lemma Set_wf2q:
  assumes wf: "wf2q t c"
  shows "wf2q t (Set t k v c)"
proof -
  consider (freq) "lru_Exist t k (frequent c)"
    | (rec) "\<not> lru_Exist t k (frequent c)" "lru_Exist t k (recent c)"
    | (ghost) "\<not> lru_Exist t k (frequent c)" "\<not> lru_Exist t k (recent c)"
        "lru_Exist t k (recentEvict c)"
    | (new) "\<not> lru_Exist t k (frequent c)" "\<not> lru_Exist t k (recent c)"
        "\<not> lru_Exist t k (recentEvict c)"
    by blast
  then show ?thesis
  proof cases
    case freq
    then show ?thesis using overwrite_wf2q [OF wf freq] by (simp add: Set_def)
  next
    case rec
    then show ?thesis using promote_wf2q [OF wf] by (simp add: Set_def)
  next
    case ghost
    let ?c1 = "ensureSpace True c"
    let ?c2 = "?c1\<lparr>recentEvict := lru_Delete k (recentEvict ?c1)\<rparr>"
    have wf1: "wf2q t ?c2" using ensureSpace_wf2q [OF wf] by simp
    have "wf2q t (?c2\<lparr>frequent := lru_Set k v (frequent ?c2)\<rparr>)"
    proof (rule wf2q_frequent_Set [OF wf1])
      fix x assume "x \<in> set (lru (recent ?c2))" and fx: "fst x = k"
      then have "x \<in> set (lru (recent c))"
        using ensureSpace_recent_entries [of True c] by auto
      then show "expired t (snd (snd x))"
        using not_Exist_expired [OF wf2q_distinct [OF wf] ghost(2)] fx by blast
    qed
    then show ?thesis using ghost by (simp add: Set_def Let_def)
  next
    case new
    let ?c1 = "ensureSpace False c"
    have "k \<notin> set (lru_keys (frequent c))" by (rule not_Exist_frequent [OF wf new(1)])
    then have "k \<notin> set (lru_keys (frequent ?c1))"
      using ensureSpace_frequent_entries [of False c] by (auto simp: lru_keys_def)
    from wf2q_recent_put [OF ensureSpace_wf2q [OF wf] this]
    show ?thesis using new by (simp add: Set_def Let_def lru_Set_def)
  qed
qed

lemma SetWithExpire_wf2q:
  assumes wf: "wf2q t c"
  shows "wf2q t (SetWithExpire t k v e c)"
proof (cases "lru_Exist t k (frequent c)")
  case True
  then show ?thesis using overwrite_wf2q [OF wf True] by (simp add: SetWithExpire_def)
next
  case False
  from wf2q_recent_put [OF wf not_Exist_frequent [OF wf False]]
  show ?thesis using False by (simp add: SetWithExpire_def lru_SetWithExpire_def)
qed

lemma Delete_wf2q:
  assumes wf: "wf2q t c"
  shows "wf2q t (Delete k c)"
proof -
  let ?c1 = "c\<lparr>frequent := lru_Delete k (frequent c)\<rparr>"
  have "wf2q t (?c1\<lparr>recent := lru_Delete k (recent ?c1)\<rparr>)"
    by (rule wf2q_recent_Delete [OF wf2q_frequent_Delete [OF wf]])
  then show ?thesis by (simp add: Delete_def)
qed

lemma Clear_wf2q: "wf2q t (Clear c)"
  by (simp add: wf2q_def Clear_def lru_Clear_def lru_keys_def)

lemma step_wf2q: "wf2q t c \<Longrightarrow> wf2q t (step t x c)"
  by (cases x) (simp_all add: Set_wf2q SetWithExpire_wf2q Get_wf2q Delete_wf2q Clear_wf2q)

lemma run_wf2q:
  "wf2q t c \<Longrightarrow> sorted (t # map fst evs @ [now]) \<Longrightarrow> wf2q now (run evs c)"
proof (induction evs arbitrary: t c)
  case Nil
  then show ?case using wf2q_mono by simp
next
  case (Cons ev evs)
  obtain t1 x where ev: "ev = (t1, x)" by (cases ev)
  from Cons.prems ev have "t \<le> t1" and s: "sorted (t1 # map fst evs @ [now])" by auto
  from wf2q_mono [OF Cons.prems(1) this(1)] have "wf2q t1 (step t1 x c)" by (rule step_wf2q)
  from Cons.IH [OF this s] show ?case by (simp add: ev)
qed

lemma New2QParams_wf2q: "New2QParams sz rr gr = Some c \<Longrightarrow> wf2q t c"
  by (auto simp: New2QParams_def wf2q_def lru_New_def lru_keys_def Let_def split: if_splits)

lemma wf2q_not_both:
  assumes wf: "wf2q now c"
  shows "\<not> (lru_Exist now k (recent c) \<and> lru_Exist now k (frequent c))"
proof
  assume a: "lru_Exist now k (recent c) \<and> lru_Exist now k (frequent c)"
  then obtain v e where m: "map_of (lru (recent c)) k = Some (v, e)" and ne: "\<not> expired now e"
    by (auto simp: lru_Exist_def lru_Peek_def split: option.splits if_splits)
  from m have x: "(k, v, e) \<in> set (lru (recent c))" by (rule map_of_SomeD)
  from a have "k \<in> set (lru_keys (frequent c))" by (blast intro: lru_Exist_stored)
  then have "fst (k, v, e) \<in> set (lru_keys (frequent c))" by simp
  from wf2q_overlap [OF wf x this] ne show False by simp
qed

text \<open>
  What every run keeps, \<^verbatim>\<open>SetWithExpire\<close> included: when the clock does not run
  backwards, the copies of a key that \<^verbatim>\<open>Exist\<close> reports, at the time \<open>now\<close> of
  the observation, are never in both recent and frequent. A key stored in both has an
  expired copy in recent.
\<close>

lemma live_copies_disjoint:
  assumes "New2QParams sz rr gr = Some c0" and "sorted (map fst evs @ [now])"
  shows "\<not> (lru_Exist now k (recent (run evs c0)) \<and> lru_Exist now k (frequent (run evs c0)))"
proof -
  let ?t = "hd (map fst evs @ [now])"
  have "sorted (?t # map fst evs @ [now])" using assms(2) by (cases evs) auto
  from run_wf2q [OF New2QParams_wf2q [OF assms(1)] this] show ?thesis by (rule wf2q_not_both)
qed


section \<open>ensureSpace by cases, and the parameters of a cache\<close>

lemma ensureSpace_eq:
  "ensureSpace g c =
     (if total_len c < size_tq c then c
      else if 0 < lru_Len (recent c) \<and>
              (recentSize c < lru_Len (recent c) \<or> (lru_Len (recent c) = recentSize c \<and> \<not> g))
      then (case lru (recent c) of
              [] \<Rightarrow> c
            | x # xs \<Rightarrow> c\<lparr>recent := (recent c)\<lparr>lru := xs\<rparr>,
                          recentEvict := lru_Set (fst x) () (recentEvict c)\<rparr>)
      else c\<lparr>frequent := (frequent c)\<lparr>lru := drop 1 (lru (frequent c))\<rparr>\<rparr>)"
proof (cases "lru (recent c)")
  case Nil
  then show ?thesis
    by (cases "lru (frequent c)")
      (auto simp: ensureSpace_def total_len_def lru_DeleteOldest_def lru_Len_def Let_def)
next
  case (Cons x xs)
  then show ?thesis
    by (cases "lru (frequent c)")
      (auto simp: ensureSpace_def total_len_def lru_DeleteOldest_def lru_Len_def Let_def)
qed

lemma ensureSpace_params: "params (ensureSpace g c) = params c"
  by (simp add: ensureSpace_eq params_def lru_Set_def split: list.splits)

lemma Set_params: "params (Set now k v c) = params c"
  using ensureSpace_params [of True c] ensureSpace_params [of False c]
  by (simp add: Set_def Let_def params_def lru_Set_def)

lemma SetWithExpire_params: "params (SetWithExpire now k v t c) = params c"
  by (simp add: SetWithExpire_def params_def lru_Set_def lru_SetWithExpire_def)

lemma Get_params: "params (snd (Get now k c)) = params c"
  by (simp add: Get_eq params_def lru_Set_def split: option.splits)

lemma Delete_params: "params (Delete k c) = params c"
  by (simp add: Delete_def params_def)

lemma Clear_params: "params (Clear c) = params c"
  by (simp add: Clear_def params_def)

lemma step_params: "params (step t x c) = params c"
  by (cases x) (simp_all add: Set_params SetWithExpire_params Get_params Delete_params Clear_params)

lemma run_params: "params (run evs c) = params c"
  by (induction evs arbitrary: c) (auto simp: step_params)

lemma New2QParams_params:
  assumes "New2QParams sz rr gr = Some c"
  shows "0 < sz \<and> size_tq c = sz \<and> maxSize (recent c) = sz \<and> maxSize (frequent c) = sz"
  using assms by (auto simp: New2QParams_def Let_def lru_New_def split: if_splits)

lemma reachable_capacity:
  assumes "New2QParams sz rr gr = Some c0"
  shows "0 < maxSize (recent (run evs c0)) \<and> 0 < maxSize (frequent (run evs c0))"
  using New2QParams_params [OF assms] run_params [of evs c0] by (simp add: params_def)


section \<open>The test scenario, step by step\<close>

lemma New_4:
  "New 4 = (Some (st4 [] [] []), None)"
  by (simp add: New_def New2QParams_def Default2QRecentRatio_def Default2QGhostEntries_def
      f_gt_def float64_of_int_def round64_4 round64_1 round64_2 st4_def lru_New_def)

lemma set_1: "Set t ''1'' ''one'' (st4 [] [] []) = st4 [e1] [] []"
  by (simp add: st4_def ent_defs lru_defs tq_defs)

lemma set_2: "Set t ''2'' ''two'' (st4 [e1] [] []) = st4 [e1, e2] [] []"
  by (simp add: st4_def ent_defs lru_defs tq_defs)

lemma set_3: "Set t ''3'' ''three'' (st4 [e1, e2] [] []) = st4 [e1, e2, e3] [] []"
  by (simp add: st4_def ent_defs lru_defs tq_defs)

lemma set_4: "Set t ''4'' ''four'' (st4 [e1, e2, e3] [] []) = st4 [e1, e2, e3, e4] [] []"
  by (simp add: st4_def ent_defs lru_defs tq_defs)

lemma set_5: "Set t ''5'' ''five'' (st4 [e1, e2, e3, e4] [] []) = st4 [e2, e3, e4, e5] [] [g1]"
  by (simp add: st4_def ent_defs lru_defs tq_defs)

lemma set_1_again:
  "Set t ''1'' v (st4 [e2, e3, e4, e5] [] [g1]) = st4 [e3, e4, e5] [(''1'', v, None)] [g2]"
  by (simp add: st4_def ent_defs lru_defs tq_defs)

lemma get_1_miss: "Get t ''1'' (st4 [e2, e3, e4, e5] [] [g1]) = (None, st4 [e2, e3, e4, e5] [] [g1])"
  by (simp add: st4_def ent_defs lru_defs tq_defs)

lemma get_2_promote:
  "Get t ''2'' (st4 [e2, e3, e4, e5] [] [g1]) = (Some ''two'', st4 [e3, e4, e5] [e2] [g1])"
  by (simp add: st4_def ent_defs lru_defs tq_defs)

lemma get_2_hit:
  "Get t ''2'' (st4 [e3, e4, e5] [e2] [g1]) = (Some ''two'', st4 [e3, e4, e5] [e2] [g1])"
  by (simp add: st4_def ent_defs lru_defs tq_defs)

lemma get_5_promote:
  "Get t ''5'' (st4 [e3, e4, e5] [e2] [g1]) = (Some ''five'', st4 [e3, e4] [e2, e5] [g1])"
  by (simp add: st4_def ent_defs lru_defs tq_defs)

lemma set_6: "Set t ''6'' ''six'' (st4 [e3, e4] [e2, e5] [g1]) = st4 [e4, e6] [e2, e5] [g1, g3]"
  by (simp add: st4_def ent_defs lru_defs tq_defs)

lemma get_3_miss:
  "Get t ''3'' (st4 [e4, e6] [e2, e5] [g1, g3]) = (None, st4 [e4, e6] [e2, e5] [g1, g3])"
  by (simp add: st4_def ent_defs lru_defs tq_defs)

lemma get_2_still:
  "Get t ''2'' (st4 [e4, e6] [e2, e5] [g1, g3]) = (Some ''two'', st4 [e4, e6] [e5, e2] [g1, g3])"
  by (simp add: st4_def ent_defs lru_defs tq_defs)

lemmas five_sets = set_1 set_2 set_3 set_4 set_5


lemma New2QParams_4: "New2QParams 4 (Fin (1 / 4)) (Fin (1 / 2)) = Some (st4 [] [] [])"
  using New_4 by (simp add: New_def Default2QRecentRatio_def Default2QGhostEntries_def)

lemma get_1_first: "Get 0 ''1'' (st4 [e1] [] []) = (Some ''one'', st4 [] [e1] [])"
  by (simp add: st4_def ent_defs lru_defs tq_defs)

lemma expire_2: "SetWithExpire 0 ''2'' ''two'' 60 (st4 [] [e1] []) = st4 [x2] [e1] []"
  by (simp add: st4_def ent_defs x2_def lru_defs tq_defs)

lemma expire_3: "SetWithExpire 0 ''3'' ''three'' 60 (st4 [x2] [e1] []) = st4 [x2, x3] [e1] []"
  by (simp add: st4_def ent_defs x2_def x3_def lru_defs tq_defs)

lemma expire_4:
  "SetWithExpire 0 ''4'' ''four'' 60 (st4 [x2, x3] [e1] []) = st4 [x2, x3, x4] [e1] []"
  by (simp add: st4_def ent_defs x2_def x3_def x4_def lru_defs tq_defs)

lemma expire_5:
  "SetWithExpire 0 ''5'' ''five'' 60 (st4 [x2, x3, x4] [e1] []) = st4 [x2, x3, x4, x5] [e1] []"
  by (simp add: st4_def ent_defs x2_def x3_def x4_def x5_def lru_defs tq_defs)

lemma expire_1_ghost:
  "SetWithExpire 0 ''1'' ''uno'' 60 (st4 [e2, e3, e4, e5] [] [g1]) = st4 [e3, e4, e5, x1] [] [g1]"
  by (simp add: st4_def ent_defs x1_def lru_defs tq_defs)

lemma get_1_ghost:
  "Get 1 ''1'' (st4 [e3, e4, e5, x1] [] [g1]) =
     (Some ''uno'', st4 [e3, e4, e5] [(''1'', ''uno'', None)] [g1])"
  by (simp add: st4_def ent_defs x1_def lru_defs tq_defs)




section \<open>The capacity bound without SetWithExpire\<close>

lemma lru_put_length: "length (lru (lru_put k v e s)) \<le> Suc (length (filter (\<lambda>x. fst x \<noteq> k) (lru s)))"
  by (simp add: lru_put_def Let_def)

lemma lru_put_Len: "lru_Len (lru_put k v e s) \<le> lru_Len s + 1"
proof -
  have "length (filter (\<lambda>x. fst x \<noteq> k) (lru s)) \<le> length (lru s)"
    by (rule length_filter_le)
  with lru_put_length [of k v e s] have "length (lru (lru_put k v e s)) \<le> Suc (length (lru s))"
    by linarith
  then show ?thesis unfolding lru_Len_def by linarith
qed

lemma filter_key_shorter:
  assumes "k \<in> set (map fst xs)"
  shows "length (filter (\<lambda>x. fst x \<noteq> k) xs) < length xs"
proof -
  from assms obtain x where "x \<in> set xs" and "\<not> fst x \<noteq> k" by auto
  then show ?thesis by (rule length_filter_less)
qed

lemma lru_put_Len_stored:
  assumes "k \<in> set (lru_keys s)"
  shows "lru_Len (lru_put k v e s) \<le> lru_Len s"
proof -
  have "length (filter (\<lambda>x. fst x \<noteq> k) (lru s)) < length (lru s)"
    using filter_key_shorter [of k "lru s"] assms by (simp add: lru_keys_def)
  with lru_put_length [of k v e s] have "length (lru (lru_put k v e s)) \<le> length (lru s)"
    by linarith
  then show ?thesis unfolding lru_Len_def by linarith
qed

lemma lru_Delete_Len: "lru_Len (lru_Delete k s) \<le> lru_Len s"
  by (simp add: lru_Delete_def lru_Len_def)

lemma lru_Delete_Len_stored:
  assumes "k \<in> set (lru_keys s)"
  shows "lru_Len (lru_Delete k s) + 1 \<le> lru_Len s"
proof -
  have "length (filter (\<lambda>x. fst x \<noteq> k) (lru s)) < length (lru s)"
    using filter_key_shorter [of k "lru s"] assms by (simp add: lru_keys_def)
  then show ?thesis unfolding lru_Delete_def lru_Len_def by simp
qed

lemma lru_Get_Len: "lru_Len (snd (lru_Get now k s)) = lru_Len s"
proof -
  have "length (touch k (lru s)) = length (lru s)"
    using sum_length_filter_compl [of "\<lambda>x. fst x = k" "lru s"] by (simp add: touch_def)
  then show ?thesis by (simp add: lru_Get_def lru_Len_def split: option.splits)
qed

lemma ensureSpace_room:
  assumes "0 < size_tq c" and "recentSize c < size_tq c" and "total_len c \<le> size_tq c"
  shows "total_len (ensureSpace g c) < size_tq c"
proof (cases "total_len c < size_tq c")
  case True
  then show ?thesis by (simp add: ensureSpace_eq)
next
  case False
  with assms(3) have full: "total_len c = size_tq c" by simp
  show ?thesis
  proof (cases "lru (recent c)")
    case Nil
    with full assms(1) obtain y ys where "lru (frequent c) = y # ys"
      by (cases "lru (frequent c)") (auto simp: total_len_def lru_Len_def)
    with Nil full show ?thesis
      by (simp add: ensureSpace_eq total_len_def lru_Len_def)
  next
    case (Cons x xs)
    show ?thesis
    proof (cases "lru (frequent c)")
      case Nil
      with Cons full assms(2) show ?thesis
        by (simp add: ensureSpace_eq total_len_def lru_Len_def)
    next
      case (Cons y ys)
      with \<open>lru (recent c) = x # xs\<close> full show ?thesis
        by (simp add: ensureSpace_eq total_len_def lru_Len_def)
    qed
  qed
qed

lemma promote_total:
  assumes "k \<in> set (lru_keys (recent c))"
  shows "total_len (c\<lparr>recent := lru_Delete k (recent c), frequent := lru_Set k v (frequent c)\<rparr>)
           \<le> total_len c"
  using lru_Delete_Len_stored [OF assms] lru_put_Len [of k v None "frequent c"]
  by (simp add: total_len_def lru_Set_def)

lemma Get_total: "total_len (snd (Get now k c)) \<le> total_len c"
proof (cases "lru_Peek now k (frequent c)")
  case (Some val)
  then show ?thesis by (simp add: Get_eq total_len_def lru_Get_Len)
next
  case None
  show ?thesis
  proof (cases "lru_Peek now k (recent c)")
    case (Some val)
    from promote_total [OF lru_Peek_stored [OF Some]] show ?thesis
      using None Some by (simp add: Get_eq)
  next
    case None
    with \<open>lru_Peek now k (frequent c) = None\<close> show ?thesis by (simp add: Get_eq)
  qed
qed

lemma Set_total:
  assumes "0 < size_tq c" and "recentSize c < size_tq c" and "total_len c \<le> size_tq c"
  shows "total_len (Set now k v c) \<le> size_tq c"
proof -
  consider (freq) "lru_Exist now k (frequent c)"
    | (rec) "\<not> lru_Exist now k (frequent c)" "lru_Exist now k (recent c)"
    | (ghost) "\<not> lru_Exist now k (frequent c)" "\<not> lru_Exist now k (recent c)"
        "lru_Exist now k (recentEvict c)"
    | (new) "\<not> lru_Exist now k (frequent c)" "\<not> lru_Exist now k (recent c)"
        "\<not> lru_Exist now k (recentEvict c)"
    by blast
  then show ?thesis
  proof cases
    case freq
    from lru_put_Len_stored [OF lru_Exist_stored [OF freq], of v None] assms(3)
    show ?thesis using freq by (simp add: Set_def total_len_def lru_Set_def)
  next
    case rec
    from promote_total [OF lru_Exist_stored [OF rec(2)], of v] assms(3)
    show ?thesis using rec by (simp add: Set_def)
  next
    case ghost
    from ensureSpace_room [OF assms, of True]
      lru_put_Len [of k v None "frequent (ensureSpace True c)"]
    show ?thesis using ghost by (simp add: Set_def Let_def total_len_def lru_Set_def)
  next
    case new
    from ensureSpace_room [OF assms, of False]
      lru_put_Len [of k v None "recent (ensureSpace False c)"]
    show ?thesis using new by (simp add: Set_def Let_def total_len_def lru_Set_def)
  qed
qed

lemma Delete_total: "total_len (Delete k c) \<le> total_len c"
  using lru_Delete_Len [of k "recent c"] lru_Delete_Len [of k "frequent c"]
  by (simp add: Delete_def total_len_def)

lemma Clear_total: "total_len (Clear c) = 0"
  by (simp add: Clear_def total_len_def lru_Clear_def lru_Len_def)

lemma step_total:
  assumes "0 < size_tq c" and "recentSize c < size_tq c" and "total_len c \<le> size_tq c"
    and "plain x"
  shows "total_len (step t x c) \<le> size_tq c"
proof (cases x)
  case (CSet k v)
  then show ?thesis using Set_total [OF assms(1-3)] by simp
next
  case (CSetWithExpire k v e)
  with assms(4) show ?thesis by simp
next
  case (CGet k)
  then show ?thesis using Get_total [of t k c] assms(3) by simp
next
  case (CDelete k)
  then show ?thesis using Delete_total [of k c] assms(3) by simp
next
  case CClear
  then show ?thesis using assms(1) by (simp add: Clear_total)
qed

lemma run_total:
  assumes "0 < size_tq c" and "recentSize c < size_tq c" and "total_len c \<le> size_tq c"
    and "list_all (\<lambda>ev. plain (snd ev)) evs"
  shows "total_len (run evs c) \<le> size_tq c"
  using assms
proof (induction evs arbitrary: c)
  case Nil
  then show ?case by simp
next
  case (Cons ev evs)
  obtain t x where ev: "ev = (t, x)" by (cases ev)
  have p: "size_tq (step t x c) = size_tq c" "recentSize (step t x c) = recentSize c"
    using step_params [of t x c] by (simp_all add: params_def)
  from Cons.prems ev have "plain x" and rest: "list_all (\<lambda>ev. plain (snd ev)) evs" by simp_all
  from step_total [OF Cons.prems(1-3) this(1), of t]
  have "total_len (step t x c) \<le> size_tq (step t x c)" by (simp add: p)
  from Cons.IH [OF _ _ this rest] Cons.prems(1,2) show ?case by (simp add: ev p)
qed

text \<open>
  Without \<^verbatim>\<open>SetWithExpire\<close> the bound of C1 holds after every call, on every cache
  whose target for recent is below its capacity.
\<close>

lemma capacity_bound_without_SetWithExpire:
  assumes "New2QParams sz rr gr = Some c0" and "recentSize c0 < sz"
    and "list_all (\<lambda>ev. plain (snd ev)) evs"
  shows "total_len (run evs c0) \<le> sz"
proof -
  from assms(1) have "0 < sz" and s: "size_tq c0 = sz" and "total_len c0 = 0"
    by (auto simp: New2QParams_def Let_def lru_New_def total_len_def lru_Len_def split: if_splits)
  then show ?thesis using run_total [of c0 evs] assms(2,3) by simp
qed

text \<open>
  The bound on \<open>recentSize\<close> in \<open>capacity_bound_without_SetWithExpire\<close> is needed.
  With \<open>recentRatio = 1\<close> the target for recent is the capacity itself; on a ghost
  re-entry with recent at its target and frequent empty, \<^verbatim>\<open>ensureSpace\<close> turns to
  frequent, where there is nothing to evict, and the insertion into frequent that
  follows takes the cache above its capacity.
\<close>

lemma recentRatio_one_exceeds_capacity:
  "New2QParams 1 (Fin 1) (Fin 1) = Some (st1 [] [] []) \<and>
   run [(0, CSet ''a'' ''x''), (0, CSet ''b'' ''y''), (0, CSet ''a'' ''z'')] (st1 [] [] [])
     = st1 [(''b'', ''y'', None)] [(''a'', ''z'', None)] [] \<and>
   total_len (st1 [(''b'', ''y'', None)] [(''a'', ''z'', None)] []) = 2"
proof -
  have 0: "New2QParams 1 (Fin 1) (Fin 1) = Some (st1 [] [] [])"
    by (simp add: New2QParams_def f_gt_def float64_of_int_def round64_1 st1_def lru_New_def)
  have 1: "Set 0 ''a'' ''x'' (st1 [] [] []) = st1 [(''a'', ''x'', None)] [] []"
    by (simp add: st1_def lru_defs tq_defs)
  have 2: "Set 0 ''b'' ''y'' (st1 [(''a'', ''x'', None)] [] [])
             = st1 [(''b'', ''y'', None)] [] [(''a'', (), None)]"
    by (simp add: st1_def lru_defs tq_defs)
  have 3: "Set 0 ''a'' ''z'' (st1 [(''b'', ''y'', None)] [] [(''a'', (), None)])
             = st1 [(''b'', ''y'', None)] [(''a'', ''z'', None)] []"
    by (simp add: st1_def lru_defs tq_defs)
  have 4: "total_len (st1 [(''b'', ''y'', None)] [(''a'', ''z'', None)] []) = 2"
    by (simp add: st1_def total_len_def lru_Len_def)
  show ?thesis using 0 4 by (simp add: 1 2 3)
qed


section \<open>The ghost store without SetWithExpire\<close>

lemma no_expiry_put: "no_expiry s \<Longrightarrow> no_expiry (lru_put k v None s)"
  using lru_put_entries [of k v None s] unfolding no_expiry_def by fastforce

lemma no_expiry_Delete: "no_expiry s \<Longrightarrow> no_expiry (lru_Delete k s)"
  unfolding no_expiry_def by (simp add: lru_Delete_entries)

lemma no_expiry_Get: "no_expiry s \<Longrightarrow> no_expiry (snd (lru_Get now k s))"
  unfolding no_expiry_def by (simp add: lru_Get_entries)

lemma no_expiry_subset: "no_expiry s \<Longrightarrow> set (lru s') \<subseteq> set (lru s) \<Longrightarrow> no_expiry s'"
  unfolding no_expiry_def by blast

lemma no_expiry_Exist_iff: "no_expiry s \<Longrightarrow> lru_Exist now k s = (k \<in> set (lru_keys s))"
  unfolding no_expiry_def by (rule no_expiry_Exist)

lemma lru_Delete_keys: "set (lru_keys (lru_Delete k s)) = set (lru_keys s) - {k}"
  by (auto simp: lru_Delete_def lru_keys_def)

lemma lru_Get_keys: "set (lru_keys (snd (lru_Get now k s))) = set (lru_keys s)"
  using lru_Get_entries [of now k s] by (simp add: lru_keys_def)

lemma separated_promote:
  assumes sep: "separated c" and k: "k \<in> set (lru_keys (recent c))"
  shows "separated (c\<lparr>recent := lru_Delete k (recent c), frequent := lru_Set k v (frequent c)\<rparr>)"
proof -
  have f: "set (lru_keys (lru_Set k v (frequent c))) \<subseteq> insert k (set (lru_keys (frequent c)))"
    using lru_put_keys [of k v None "frequent c"] by (simp add: lru_Set_def)
  have r: "set (lru_keys (lru_Delete k (recent c))) = set (lru_keys (recent c)) - {k}"
    by (rule lru_Delete_keys)
  have "no_expiry (lru_Delete k (recent c))" "no_expiry (lru_Set k v (frequent c))"
    "distinct (lru_keys (lru_Delete k (recent c)))"
    using sep by (simp_all add: separated_def no_expiry_Delete no_expiry_put lru_Set_def
        lru_Delete_distinct)
  moreover have "set (lru_keys (lru_Delete k (recent c))) \<inter> set (lru_keys (lru_Set k v (frequent c))) = {}"
    using sep f r unfolding separated_def by blast
  moreover have "set (lru_keys (recentEvict c)) \<inter> set (lru_keys (lru_Delete k (recent c))) = {}"
    using sep r unfolding separated_def by blast
  moreover have "set (lru_keys (recentEvict c)) \<inter> set (lru_keys (lru_Set k v (frequent c))) = {}"
    using sep f k unfolding separated_def by blast
  ultimately show ?thesis using sep by (simp add: separated_def)
qed

lemma separated_Get:
  assumes sep: "separated c"
  shows "separated (snd (Get now k c))"
proof (cases "lru_Peek now k (frequent c)")
  case (Some val)
  have "separated (c\<lparr>frequent := snd (lru_Get now k (frequent c))\<rparr>)"
    using sep by (simp add: separated_def no_expiry_Get lru_Get_keys)
  with Some show ?thesis by (simp add: Get_eq)
next
  case None
  show ?thesis
  proof (cases "lru_Peek now k (recent c)")
    case (Some val)
    from separated_promote [OF sep lru_Peek_stored [OF Some]] show ?thesis
      using None Some by (simp add: Get_eq)
  next
    case None
    with \<open>lru_Peek now k (frequent c) = None\<close> sep show ?thesis by (simp add: Get_eq)
  qed
qed

lemma separated_ensureSpace:
  assumes sep: "separated c"
  shows "separated (ensureSpace g c)"
proof -
  have drop_f: "separated (c\<lparr>frequent := (frequent c)\<lparr>lru := drop 1 (lru (frequent c))\<rparr>\<rparr>)"
  proof -
    let ?f = "(frequent c)\<lparr>lru := drop 1 (lru (frequent c))\<rparr>"
    have s: "set (lru ?f) \<subseteq> set (lru (frequent c))"
      using set_drop_subset [of 1 "lru (frequent c)"] by simp
    then have ks: "set (lru_keys ?f) \<subseteq> set (lru_keys (frequent c))"
      unfolding lru_keys_def by auto
    have "no_expiry ?f"
      using no_expiry_subset [OF _ s] sep by (simp add: separated_def)
    moreover have "set (lru_keys (recent c)) \<inter> set (lru_keys ?f) = {}"
      using sep ks unfolding separated_def by blast
    moreover have "set (lru_keys (recentEvict c)) \<inter> set (lru_keys ?f) = {}"
      using sep ks unfolding separated_def by blast
    ultimately show ?thesis using sep by (simp add: separated_def)
  qed
  have evict: "separated (c\<lparr>recent := (recent c)\<lparr>lru := xs\<rparr>,
                  recentEvict := lru_Set (fst x) () (recentEvict c)\<rparr>)"
    if l: "lru (recent c) = x # xs" for x xs
  proof -
    have d: "fst x \<notin> set (map fst xs)" "distinct (map fst xs)"
      using sep l by (simp_all add: separated_def lru_keys_def)
    have r: "set (lru_keys (recent c)) = insert (fst x) (set (map fst xs))"
      using l by (simp add: lru_keys_def)
    have g: "set (lru_keys (lru_Set (fst x) () (recentEvict c)))
               \<subseteq> insert (fst x) (set (lru_keys (recentEvict c)))"
      using lru_put_keys [of "fst x" "()" None "recentEvict c"] by (simp add: lru_Set_def)
    have "no_expiry ((recent c)\<lparr>lru := xs\<rparr>)"
      using sep l by (auto simp: separated_def no_expiry_def)
    moreover have "no_expiry (lru_Set (fst x) () (recentEvict c))"
      using sep by (simp add: separated_def lru_Set_def no_expiry_put)
    moreover have "set (map fst xs) \<inter> set (lru_keys (frequent c)) = {}"
      using sep r unfolding separated_def by blast
    moreover have "set (lru_keys (lru_Set (fst x) () (recentEvict c))) \<inter> set (map fst xs) = {}"
      using sep r g d(1) unfolding separated_def by blast
    moreover have "set (lru_keys (lru_Set (fst x) () (recentEvict c))) \<inter> set (lru_keys (frequent c)) = {}"
      using sep r g unfolding separated_def by blast
    ultimately show ?thesis using sep d(2) by (simp add: separated_def lru_keys_def)
  qed
  show ?thesis
    using sep drop_f evict by (simp add: ensureSpace_eq split: list.splits)
qed

lemma ensureSpace_recent_keys:
  "set (lru_keys (recent (ensureSpace g c))) \<subseteq> set (lru_keys (recent c))"
  using ensureSpace_recent_entries [of g c] by (auto simp: lru_keys_def)

lemma ensureSpace_frequent_keys:
  "set (lru_keys (frequent (ensureSpace g c))) \<subseteq> set (lru_keys (frequent c))"
  using ensureSpace_frequent_entries [of g c] by (auto simp: lru_keys_def)

lemma ensureSpace_ghost_keys:
  "set (lru_keys (recentEvict (ensureSpace g c)))
     \<subseteq> set (lru_keys (recentEvict c)) \<union> set (lru_keys (recent c))"
proof -
  have "set (lru_keys (lru_Set (fst x) () (recentEvict c)))
          \<subseteq> set (lru_keys (recentEvict c)) \<union> set (lru_keys (recent c))"
    if "lru (recent c) = x # xs" for x xs
    using lru_put_keys [of "fst x" "()" None "recentEvict c"] that
    by (auto simp: lru_Set_def lru_keys_def)
  then show ?thesis by (simp add: ensureSpace_eq split: list.splits)
qed

lemma separated_Set:
  assumes sep: "separated c"
  shows "separated (Set now k v c)"
proof -
  have ex: "lru_Exist now k (frequent c) = (k \<in> set (lru_keys (frequent c)))"
    "lru_Exist now k (recent c) = (k \<in> set (lru_keys (recent c)))"
    "lru_Exist now k (recentEvict c) = (k \<in> set (lru_keys (recentEvict c)))"
    using sep by (simp_all add: separated_def no_expiry_Exist_iff)
  consider (freq) "k \<in> set (lru_keys (frequent c))"
    | (rec) "k \<notin> set (lru_keys (frequent c))" "k \<in> set (lru_keys (recent c))"
    | (ghost) "k \<notin> set (lru_keys (frequent c))" "k \<notin> set (lru_keys (recent c))"
        "k \<in> set (lru_keys (recentEvict c))"
    | (new) "k \<notin> set (lru_keys (frequent c))" "k \<notin> set (lru_keys (recent c))"
        "k \<notin> set (lru_keys (recentEvict c))"
    by blast
  then show ?thesis
  proof cases
    case freq
    have "set (lru_keys (lru_Set k v (frequent c))) \<subseteq> set (lru_keys (frequent c))"
      using lru_put_keys [of k v None "frequent c"] freq by (auto simp: lru_Set_def)
    moreover have "no_expiry (lru_Set k v (frequent c))"
      using sep by (simp add: separated_def lru_Set_def no_expiry_put)
    moreover have "set (lru_keys (recent c)) \<inter> set (lru_keys (lru_Set k v (frequent c))) = {}"
      "set (lru_keys (recentEvict c)) \<inter> set (lru_keys (lru_Set k v (frequent c))) = {}"
      using sep calculation(1) unfolding separated_def by blast+
    ultimately have "separated (c\<lparr>frequent := lru_Set k v (frequent c)\<rparr>)"
      using sep by (simp add: separated_def)
    then show ?thesis using freq ex by (simp add: Set_def)
  next
    case rec
    from separated_promote [OF sep rec(2), of v] show ?thesis
      using rec ex by (simp add: Set_def)
  next
    case ghost
    let ?c1 = "ensureSpace True c"
    have sep1: "separated ?c1" by (rule separated_ensureSpace [OF sep])
    have k1: "k \<notin> set (lru_keys (recent ?c1))"
      using ensureSpace_recent_keys [of True c] ghost(2) by blast
    have f: "set (lru_keys (lru_Set k v (frequent ?c1))) \<subseteq> insert k (set (lru_keys (frequent ?c1)))"
      using lru_put_keys [of k v None "frequent ?c1"] by (simp add: lru_Set_def)
    have g: "set (lru_keys (lru_Delete k (recentEvict ?c1))) = set (lru_keys (recentEvict ?c1)) - {k}"
      by (rule lru_Delete_keys)
    have "no_expiry (lru_Set k v (frequent ?c1))" "no_expiry (lru_Delete k (recentEvict ?c1))"
      using sep1 by (simp_all add: separated_def lru_Set_def no_expiry_put no_expiry_Delete)
    moreover have "set (lru_keys (recent ?c1)) \<inter> set (lru_keys (lru_Set k v (frequent ?c1))) = {}"
      using sep1 f k1 unfolding separated_def by blast
    moreover have "set (lru_keys (lru_Delete k (recentEvict ?c1))) \<inter> set (lru_keys (recent ?c1)) = {}"
      using sep1 g unfolding separated_def by blast
    moreover have "set (lru_keys (lru_Delete k (recentEvict ?c1))) \<inter>
                   set (lru_keys (lru_Set k v (frequent ?c1))) = {}"
      using sep1 f g unfolding separated_def by blast
    ultimately have "separated (?c1\<lparr>recentEvict := lru_Delete k (recentEvict ?c1),
                                   frequent := lru_Set k v (frequent ?c1)\<rparr>)"
      using sep1 by (simp add: separated_def)
    then show ?thesis using ghost ex by (simp add: Set_def Let_def)
  next
    case new
    let ?c1 = "ensureSpace False c"
    have sep1: "separated ?c1" by (rule separated_ensureSpace [OF sep])
    have kf: "k \<notin> set (lru_keys (frequent ?c1))"
      using ensureSpace_frequent_keys [of False c] new(1) by blast
    have kg: "k \<notin> set (lru_keys (recentEvict ?c1))"
      using ensureSpace_ghost_keys [of False c] new(2,3) by blast
    have r: "set (lru_keys (lru_Set k v (recent ?c1))) \<subseteq> insert k (set (lru_keys (recent ?c1)))"
      using lru_put_keys [of k v None "recent ?c1"] by (simp add: lru_Set_def)
    have "no_expiry (lru_Set k v (recent ?c1))" "distinct (lru_keys (lru_Set k v (recent ?c1)))"
      using sep1 by (simp_all add: separated_def lru_Set_def no_expiry_put lru_put_distinct)
    moreover have "set (lru_keys (lru_Set k v (recent ?c1))) \<inter> set (lru_keys (frequent ?c1)) = {}"
      using sep1 r kf unfolding separated_def by blast
    moreover have "set (lru_keys (recentEvict ?c1)) \<inter> set (lru_keys (lru_Set k v (recent ?c1))) = {}"
      using sep1 r kg unfolding separated_def by blast
    ultimately have "separated (?c1\<lparr>recent := lru_Set k v (recent ?c1)\<rparr>)"
      using sep1 by (simp add: separated_def)
    then show ?thesis using new ex by (simp add: Set_def Let_def)
  qed
qed

lemma separated_Delete:
  assumes sep: "separated c"
  shows "separated (Delete k c)"
proof -
  have "no_expiry (lru_Delete k (recent c))" "no_expiry (lru_Delete k (frequent c))"
    "no_expiry (lru_Delete k (recentEvict c))" "distinct (lru_keys (lru_Delete k (recent c)))"
    using sep by (simp_all add: separated_def no_expiry_Delete lru_Delete_distinct)
  moreover have "(set (lru_keys (recent c)) - {k}) \<inter> (set (lru_keys (frequent c)) - {k}) = {}"
    "(set (lru_keys (recentEvict c)) - {k}) \<inter> (set (lru_keys (recent c)) - {k}) = {}"
    "(set (lru_keys (recentEvict c)) - {k}) \<inter> (set (lru_keys (frequent c)) - {k}) = {}"
    using sep unfolding separated_def by blast+
  ultimately show ?thesis by (simp add: separated_def Delete_def lru_Delete_keys)
qed

lemma separated_Clear: "separated (Clear c)"
  by (simp add: separated_def no_expiry_def Clear_def lru_Clear_def lru_keys_def)

lemma separated_step: "separated c \<Longrightarrow> plain x \<Longrightarrow> separated (step t x c)"
  by (cases x) (simp_all add: separated_Set separated_Get separated_Delete separated_Clear)

lemma separated_run:
  "separated c \<Longrightarrow> list_all (\<lambda>ev. plain (snd ev)) evs \<Longrightarrow> separated (run evs c)"
proof (induction evs arbitrary: c)
  case Nil
  then show ?case by simp
next
  case (Cons ev evs)
  obtain t x where ev: "ev = (t, x)" by (cases ev)
  with Cons.prems have "separated (step t x c)" by (simp add: separated_step)
  with Cons.IH Cons.prems(2) show ?case by (simp add: ev)
qed

text \<open>
  Without \<^verbatim>\<open>SetWithExpire\<close> the three stores hold pairwise disjoint sets of keys
  in every reachable state: no key is in the ghost store and in frequent, in the ghost
  store and in recent, or in recent and in frequent.
\<close>

lemma stores_disjoint_without_SetWithExpire:
  assumes "New2QParams sz rr gr = Some c0" and "list_all (\<lambda>ev. plain (snd ev)) evs"
  shows "set (lru_keys (recentEvict (run evs c0))) \<inter> set (lru_keys (frequent (run evs c0))) = {} \<and>
         set (lru_keys (recentEvict (run evs c0))) \<inter> set (lru_keys (recent (run evs c0))) = {} \<and>
         set (lru_keys (recent (run evs c0))) \<inter> set (lru_keys (frequent (run evs c0))) = {}"
proof -
  from assms(1) have "separated c0"
    by (auto simp: New2QParams_def Let_def lru_New_def separated_def no_expiry_def lru_keys_def
        split: if_splits)
  from separated_run [OF this assms(2)] show ?thesis by (simp add: separated_def)
qed


section \<open>The properties of the specification\<close>

text \<open>
  C1. The code at the failing input: capacity 4 with the default ratios; key 1 is set
  and read, which moves it to frequent; keys 2 to 5 are then stored with
  \<^verbatim>\<open>SetWithExpire\<close>, which inserts into recent without \<^verbatim>\<open>ensureSpace\<close>. Recent
  then holds four entries and frequent one: five entries in a cache of capacity 4.
\<close>

theorem SetWithExpire_exceeds_capacity:
  "fst (New 4) = Some (st4 [] [] []) \<and>
   run [(0, CSet ''1'' ''one''), (0, CGet ''1''), (0, CSetWithExpire ''2'' ''two'' 60),
        (0, CSetWithExpire ''3'' ''three'' 60), (0, CSetWithExpire ''4'' ''four'' 60),
        (0, CSetWithExpire ''5'' ''five'' 60)] (st4 [] [] []) = st4 [x2, x3, x4, x5] [e1] [] \<and>
   total_len (st4 [x2, x3, x4, x5] [e1] []) = 5 \<and>
   size_tq (st4 [x2, x3, x4, x5] [e1] []) = 4"
  by (simp add: New_4 set_1 get_1_first expire_2 expire_3 expire_4 expire_5)
    (simp add: st4_def total_len_def lru_Len_def)


text \<open>
  C3. \<^verbatim>\<open>ensureSpace\<close> in its three cases, the stores being lists with the least
  recently touched entry first. With room left it changes nothing. Otherwise, when
  recent is not empty and is above its target, or at its target on a call that is not
  a ghost re-entry, the first entry of recent is removed and its key alone is set in
  the ghost store: the key becomes the newest ghost key, and the oldest ghost key is
  dropped when that exceeds the ghost capacity; frequent is unchanged. In the
  remaining case the first entry of frequent is removed (nothing, if frequent is
  empty) and recent and the ghost store are unchanged.
\<close>

theorem ensureSpace_cases:
  "(total_len c < size_tq c \<longrightarrow> ensureSpace g c = c) \<and>
   (size_tq c \<le> total_len c \<and> 0 < lru_Len (recent c) \<and>
      (recentSize c < lru_Len (recent c) \<or> (lru_Len (recent c) = recentSize c \<and> \<not> g)) \<longrightarrow>
      (\<exists>k v e rest.
          lru (recent c) = (k, v, e) # rest \<and>
          ensureSpace g c =
            c\<lparr>recent := (recent c)\<lparr>lru := rest\<rparr>,
              recentEvict := lru_Set k () (recentEvict c)\<rparr> \<and>
          lru_keys (recentEvict (ensureSpace g c)) =
            (let ks = filter (\<lambda>x. x \<noteq> k) (lru_keys (recentEvict c)) @ [k]
             in if maxSize (recentEvict c) < int (length ks) then tl ks else ks))) \<and>
   (size_tq c \<le> total_len c \<and>
      \<not> (0 < lru_Len (recent c) \<and>
         (recentSize c < lru_Len (recent c) \<or> (lru_Len (recent c) = recentSize c \<and> \<not> g))) \<longrightarrow>
      ensureSpace g c = c\<lparr>frequent := (frequent c)\<lparr>lru := drop 1 (lru (frequent c))\<rparr>\<rparr>)"
proof (intro conjI impI)
  assume "total_len c < size_tq c"
  then show "ensureSpace g c = c" by (simp add: ensureSpace_eq)
next
  assume a: "size_tq c \<le> total_len c \<and> 0 < lru_Len (recent c) \<and>
      (recentSize c < lru_Len (recent c) \<or> (lru_Len (recent c) = recentSize c \<and> \<not> g))"
  then obtain x rest where l: "lru (recent c) = x # rest"
    by (cases "lru (recent c)") (auto simp: lru_Len_def)
  obtain k v e where x: "x = (k, v, e)" by (cases x)
  have eq: "ensureSpace g c =
      c\<lparr>recent := (recent c)\<lparr>lru := rest\<rparr>, recentEvict := lru_Set k () (recentEvict c)\<rparr>"
    using a l x by (simp add: ensureSpace_eq)
  have "lru_keys (recentEvict (ensureSpace g c)) =
      (let ks = filter (\<lambda>x. x \<noteq> k) (lru_keys (recentEvict c)) @ [k]
       in if maxSize (recentEvict c) < int (length ks) then tl ks else ks)"
    unfolding eq using lru_Set_keys [of k "()" "recentEvict c"] by simp
  with l x eq show "\<exists>k v e rest.
          lru (recent c) = (k, v, e) # rest \<and>
          ensureSpace g c =
            c\<lparr>recent := (recent c)\<lparr>lru := rest\<rparr>,
              recentEvict := lru_Set k () (recentEvict c)\<rparr> \<and>
          lru_keys (recentEvict (ensureSpace g c)) =
            (let ks = filter (\<lambda>x. x \<noteq> k) (lru_keys (recentEvict c)) @ [k]
             in if maxSize (recentEvict c) < int (length ks) then tl ks else ks)"
    by blast
next
  assume "size_tq c \<le> total_len c \<and>
      \<not> (0 < lru_Len (recent c) \<and>
         (recentSize c < lru_Len (recent c) \<or> (lru_Len (recent c) = recentSize c \<and> \<not> g)))"
  then have "\<not> total_len c < size_tq c" and
    "\<not> (0 < lru_Len (recent c) \<and>
         (recentSize c < lru_Len (recent c) \<or> (lru_Len (recent c) = recentSize c \<and> \<not> g)))"
    by auto
  then show "ensureSpace g c = c\<lparr>frequent := (frequent c)\<lparr>lru := drop 1 (lru (frequent c))\<rparr>\<rparr>"
    by (subst ensureSpace_eq) (simp only: if_False)
qed

theorem ensureSpace_cases_witness:
  "total_len (st4 [e1] [] []) < size_tq (st4 [e1] [] []) \<and>
   ensureSpace True (st4 [e1] [] []) = st4 [e1] [] [] \<and>
   size_tq (st4 [e2, e3, e4, e5] [] [g1]) \<le> total_len (st4 [e2, e3, e4, e5] [] [g1]) \<and>
   0 < lru_Len (recent (st4 [e2, e3, e4, e5] [] [g1])) \<and>
   recentSize (st4 [e2, e3, e4, e5] [] [g1]) < lru_Len (recent (st4 [e2, e3, e4, e5] [] [g1])) \<and>
   ensureSpace True (st4 [e2, e3, e4, e5] [] [g1]) = st4 [e3, e4, e5] [] [g1, g2] \<and>
   size_tq (st4 [e3] [e2, e5, e4] []) \<le> total_len (st4 [e3] [e2, e5, e4] []) \<and>
   lru_Len (recent (st4 [e3] [e2, e5, e4] [])) = recentSize (st4 [e3] [e2, e5, e4] []) \<and>
   ensureSpace True (st4 [e3] [e2, e5, e4] []) = st4 [e3] [e5, e4] []"
proof -
  have 1: "total_len (st4 [e1] [] []) < size_tq (st4 [e1] [] [])"
    by (simp add: st4_def total_len_def lru_Len_def)
  have 2: "size_tq (st4 [e2, e3, e4, e5] [] [g1]) \<le> total_len (st4 [e2, e3, e4, e5] [] [g1]) \<and>
     0 < lru_Len (recent (st4 [e2, e3, e4, e5] [] [g1])) \<and>
     recentSize (st4 [e2, e3, e4, e5] [] [g1]) < lru_Len (recent (st4 [e2, e3, e4, e5] [] [g1]))"
    by (simp add: st4_def total_len_def lru_Len_def)
  have 3: "size_tq (st4 [e3] [e2, e5, e4] []) \<le> total_len (st4 [e3] [e2, e5, e4] []) \<and>
     lru_Len (recent (st4 [e3] [e2, e5, e4] [])) = recentSize (st4 [e3] [e2, e5, e4] [])"
    by (simp add: st4_def total_len_def lru_Len_def)
  have 4: "\<not> recentSize (st4 [e3] [e2, e5, e4] []) < lru_Len (recent (st4 [e3] [e2, e5, e4] []))"
    by (simp add: st4_def lru_Len_def)
  have r1: "ensureSpace True (st4 [e1] [] []) = st4 [e1] [] []"
    using 1 ensureSpace_cases [of "st4 [e1] [] []" True] by blast
  have "\<exists>k v e rest. lru (recent (st4 [e2, e3, e4, e5] [] [g1])) = (k, v, e) # rest \<and>
     ensureSpace True (st4 [e2, e3, e4, e5] [] [g1]) =
       (st4 [e2, e3, e4, e5] [] [g1])\<lparr>recent := (recent (st4 [e2, e3, e4, e5] [] [g1]))\<lparr>lru := rest\<rparr>,
          recentEvict := lru_Set k () (recentEvict (st4 [e2, e3, e4, e5] [] [g1]))\<rparr>"
    using 2 ensureSpace_cases [of "st4 [e2, e3, e4, e5] [] [g1]" True] by blast
  then have r2: "ensureSpace True (st4 [e2, e3, e4, e5] [] [g1]) = st4 [e3, e4, e5] [] [g1, g2]"
    by (auto simp: st4_def ent_defs lru_Set_def lru_put_def)
  have "ensureSpace True (st4 [e3] [e2, e5, e4] []) =
      (st4 [e3] [e2, e5, e4] [])\<lparr>frequent := (frequent (st4 [e3] [e2, e5, e4] []))
          \<lparr>lru := drop 1 (lru (frequent (st4 [e3] [e2, e5, e4] [])))\<rparr>\<rparr>"
    using 3 4 ensureSpace_cases [of "st4 [e3] [e2, e5, e4] []" True] by blast
  then have r3: "ensureSpace True (st4 [e3] [e2, e5, e4] []) = st4 [e3] [e5, e4] []"
    by (simp add: st4_def)
  show ?thesis using 1 2 3 r1 r2 r3 by blast
qed

text \<open>
  C4. Capacity 4 with the default ratios gives \<open>recentSize = 1\<close> and a ghost capacity
  of 2. After the first four insertions key 1 is still in recent and not in ghost; the
  fifth insertion moves it from recent into ghost; setting key 1 again then stores it
  in frequent and not in recent. The readings of the clock are arbitrary.
\<close>

theorem scan_resistance:
  "case fst (New 4) of
     None \<Rightarrow> False
   | Some c0 \<Rightarrow>
       recentSize c0 = 1 \<and> maxSize (recentEvict c0) = 2 \<and>
       (let c4 = run [(t1, CSet ''1'' ''one''), (t2, CSet ''2'' ''two''),
                      (t3, CSet ''3'' ''three''), (t4, CSet ''4'' ''four'')] c0;
            c5 = Set t5 ''5'' ''five'' c4;
            c6 = Set t6 ''1'' v c5
        in ''1'' \<in> set (lru_keys (recent c4)) \<and>
           ''1'' \<notin> set (lru_keys (recentEvict c4)) \<and>
           ''1'' \<notin> set (lru_keys (recent c5)) \<and>
           ''1'' \<in> set (lru_keys (recentEvict c5)) \<and>
           ''1'' \<in> set (lru_keys (frequent c6)) \<and>
           ''1'' \<notin> set (lru_keys (recent c6)) \<and>
           lru_Peek t7 ''1'' (frequent c6) = Some v)"
  apply (simp add: New_4 five_sets set_1_again Let_def)
  apply (simp add: st4_def ent_defs lru_keys_def lru_Peek_def expired_def)
  done

text \<open>
  C5. The scenario of the test, at arbitrary readings of the clock, as the code runs
  it. The fifth insertion has moved key 1 into the ghost store, so \<^verbatim>\<open>Get\<close> of key 1
  finds nothing and key 1 is not in frequent afterwards; only key 2 is promoted by the
  three reads. \<^verbatim>\<open>Get\<close> of key 5 then returns "five"; setting key 6 evicts key 3 from
  recent, so \<^verbatim>\<open>Get\<close> of key 3 finds nothing; and \<^verbatim>\<open>Get\<close> of key 2 still returns
  "two".
\<close>

theorem literal_scenario:
  "case fst (New 4) of
     None \<Rightarrow> False
   | Some c0 \<Rightarrow>
       (let c5 = run [(t1, CSet ''1'' ''one''), (t2, CSet ''2'' ''two''),
                      (t3, CSet ''3'' ''three''), (t4, CSet ''4'' ''four''),
                      (t5, CSet ''5'' ''five'')] c0;
            (r1, c6) = Get t6 ''1'' c5;
            (r2, c7) = Get t7 ''2'' c6;
            (r3, c8) = Get t8 ''2'' c7;
            (r4, c9) = Get t9 ''5'' c8;
            c10 = Set t10 ''6'' ''six'' c9;
            (r5, c11) = Get t11 ''3'' c10;
            (r6, c12) = Get t12 ''2'' c11
        in ''1'' \<in> set (lru_keys (recentEvict c5)) \<and>
           r1 = None \<and> r2 = Some ''two'' \<and> r3 = Some ''two'' \<and>
           ''1'' \<notin> set (lru_keys (frequent c8)) \<and>
           ''2'' \<in> set (lru_keys (frequent c8)) \<and>
           r4 = Some ''five'' \<and>
           ''3'' \<in> set (lru_keys (recent c9)) \<and>
           ''3'' \<notin> set (lru_keys (recent c10)) \<and>
           r5 = None \<and> r6 = Some ''two'')"
  apply (simp add: New_4 five_sets get_1_miss get_2_promote get_2_hit get_5_promote set_6
      get_3_miss get_2_still Let_def)
  apply (simp add: st4_def ent_defs lru_keys_def)
  done

theorem literal_scenario_key1_not_promoted:
  "fst (New 4) = Some (st4 [] [] []) \<and>
   fst (Get 0 ''1'' (run [(0, CSet ''1'' ''one''), (0, CSet ''2'' ''two''),
                          (0, CSet ''3'' ''three''), (0, CSet ''4'' ''four''),
                          (0, CSet ''5'' ''five'')] (st4 [] [] []))) = None \<and>
   ''1'' \<notin> set (lru_keys (frequent
       (run [(0, CSet ''1'' ''one''), (0, CSet ''2'' ''two''), (0, CSet ''3'' ''three''),
             (0, CSet ''4'' ''four''), (0, CSet ''5'' ''five''),
             (0, CGet ''1''), (0, CGet ''2''), (0, CGet ''2'')] (st4 [] [] []))))"
  by (simp add: New_4 five_sets get_1_miss get_2_promote get_2_hit)
    (simp add: st4_def ent_defs lru_keys_def)

text \<open>
  C6. The code at the failing input: capacity 4 with the default ratios. The five
  insertions move key 1 into the ghost store; \<^verbatim>\<open>SetWithExpire\<close> then stores key 1 in
  recent and leaves it in the ghost store; \<^verbatim>\<open>Get\<close>, before the expiry, promotes it
  to frequent. Key 1 is then in frequent and in the ghost store at once.
\<close>

theorem ghost_and_frequent_after_SetWithExpire:
  "fst (New 4) = Some (st4 [] [] []) \<and>
   run [(0, CSet ''1'' ''one''), (0, CSet ''2'' ''two''), (0, CSet ''3'' ''three''),
        (0, CSet ''4'' ''four''), (0, CSet ''5'' ''five''),
        (0, CSetWithExpire ''1'' ''uno'' 60), (1, CGet ''1'')] (st4 [] [] [])
     = st4 [e3, e4, e5] [(''1'', ''uno'', None)] [g1] \<and>
   lru_Exist 1 ''1'' (frequent (st4 [e3, e4, e5] [(''1'', ''uno'', None)] [g1])) \<and>
   lru_Exist 1 ''1'' (recentEvict (st4 [e3, e4, e5] [(''1'', ''uno'', None)] [g1]))"
  by (simp add: New_4 five_sets expire_1_ghost get_1_ghost)
    (simp add: st4_def ent_defs lru_Exist_def lru_Peek_def expired_def)

text \<open>
  C7. \<^verbatim>\<open>New2QParams\<close> returns a cache exactly when the capacity is positive and both
  ratios lie in the closed interval from 0 to 1: a recent ratio of 0 is accepted. The
  ratios are taken not to be NaN.
\<close>

theorem New2QParams_accepts:
  assumes "recentRatio \<noteq> NaN" and "ghostRatio \<noteq> NaN"
  shows "((New2QParams sz recentRatio ghostRatio :: ('k, 'v) TwoQueueCache option) \<noteq> None) =
         (0 < sz \<and> f_le (Fin 0) recentRatio \<and> f_le recentRatio (Fin 1) \<and>
          f_le (Fin 0) ghostRatio \<and> f_le ghostRatio (Fin 1))"
proof -
  have r: "(f_lt r (Fin 0) \<or> f_gt r (Fin 1)) = (\<not> (f_le (Fin 0) r \<and> f_le r (Fin 1)))"
    if "r \<noteq> NaN" for r
    using that by (cases r) (auto simp: f_gt_def)
  show ?thesis
    unfolding New2QParams_def Let_def using r [OF assms(1)] r [OF assms(2)] by auto
qed

theorem New2QParams_accepts_witness:
  "Fin 0 \<noteq> NaN \<and> Fin (1 / 2) \<noteq> NaN \<and>
   (New2QParams 4 (Fin 0) (Fin (1 / 2)) :: (string, string) TwoQueueCache option) \<noteq> None"
  using New2QParams_accepts [of "Fin 0" "Fin (1 / 2)" 4, where ?'k = string and ?'v = string]
  by simp

theorem New2QParams_zero_recentRatio:
  "(New2QParams 4 (Fin 0) (Fin (1 / 2)) :: (string, string) TwoQueueCache option) \<noteq> None \<and>
   \<not> f_lt (Fin 0) (Fin 0)"
  by (simp add: New2QParams_def f_gt_def Let_def)

text \<open>
  C8. \<^verbatim>\<open>SetWithExpire\<close> on any reachable cache. If the key is present in frequent,
  frequent then maps it to the new value with no expiry and recent is unchanged.
  Otherwise recent then maps it to the new value with the given expiry and frequent is
  unchanged; this holds whether or not the key is in the ghost store. In both cases
  the ghost store is unchanged, and replacing it by any other store \<open>gh\<close> beforehand
  changes nothing else in the result, so it is not read.
\<close>

theorem SetWithExpire_routing:
  assumes "New2QParams sz rr gr = Some c0" and "c = run evs c0"
  shows "(lru_Exist now k (frequent c) \<longrightarrow>
            map_of (lru (frequent (SetWithExpire now k v t c))) k = Some (v, None) \<and>
            recent (SetWithExpire now k v t c) = recent c) \<and>
         (\<not> lru_Exist now k (frequent c) \<longrightarrow>
            map_of (lru (recent (SetWithExpire now k v t c))) k = Some (v, Some t) \<and>
            frequent (SetWithExpire now k v t c) = frequent c) \<and>
         recentEvict (SetWithExpire now k v t c) = recentEvict c \<and>
         SetWithExpire now k v t (c\<lparr>recentEvict := gh\<rparr>) =
           (SetWithExpire now k v t c)\<lparr>recentEvict := gh\<rparr>"
proof -
  from reachable_capacity [OF assms(1), of evs] assms(2)
  have r: "0 < maxSize (recent c)" and f: "0 < maxSize (frequent c)" by simp_all
  show ?thesis
    using lru_put_lookup [OF r, of k v "Some t"] lru_put_lookup [OF f, of k v None]
    by (simp add: SetWithExpire_def lru_Set_def lru_SetWithExpire_def)
qed

theorem SetWithExpire_routing_witness:
  "New2QParams 4 (Fin (1 / 4)) (Fin (1 / 2)) = Some (st4 [] [] []) \<and>
   st4 [e2, e3, e4, e5] [] [g1] =
     run [(0, CSet ''1'' ''one''), (0, CSet ''2'' ''two''), (0, CSet ''3'' ''three''),
          (0, CSet ''4'' ''four''), (0, CSet ''5'' ''five'')] (st4 [] [] []) \<and>
   \<not> lru_Exist 0 ''1'' (frequent (st4 [e2, e3, e4, e5] [] [g1])) \<and>
   lru_Exist 0 ''1'' (recentEvict (st4 [e2, e3, e4, e5] [] [g1])) \<and>
   map_of (lru (recent (SetWithExpire 0 ''1'' ''uno'' 60 (st4 [e2, e3, e4, e5] [] [g1])))) ''1''
     = Some (''uno'', Some 60) \<and>
   frequent (SetWithExpire 0 ''1'' ''uno'' 60 (st4 [e2, e3, e4, e5] [] [g1])) =
     frequent (st4 [e2, e3, e4, e5] [] [g1]) \<and>
   recentEvict (SetWithExpire 0 ''1'' ''uno'' 60 (st4 [e2, e3, e4, e5] [] [g1])) =
     recentEvict (st4 [e2, e3, e4, e5] [] [g1])"
proof -
  have a: "New2QParams 4 (Fin (1 / 4)) (Fin (1 / 2)) = Some (st4 [] [] [])"
    using New_4 by (simp add: New_def Default2QRecentRatio_def Default2QGhostEntries_def)
  have b: "st4 [e2, e3, e4, e5] [] [g1] =
     run [(0, CSet ''1'' ''one''), (0, CSet ''2'' ''two''), (0, CSet ''3'' ''three''),
          (0, CSet ''4'' ''four''), (0, CSet ''5'' ''five'')] (st4 [] [] [])"
    by (simp add: five_sets)
  have c: "\<not> lru_Exist 0 ''1'' (frequent (st4 [e2, e3, e4, e5] [] [g1]))"
    by (simp add: st4_def lru_Exist_def lru_Peek_def)
  have d: "lru_Exist 0 ''1'' (recentEvict (st4 [e2, e3, e4, e5] [] [g1]))"
    by (simp add: st4_def g1_def lru_Exist_def lru_Peek_def expired_def)
  show ?thesis
    using a b c d SetWithExpire_routing [OF a b, of 0 "''1''" "''uno''" 60] by blast
qed

text \<open>
  C9. After \<^verbatim>\<open>Delete\<close> the key is stored in none of the three stores, whatever the
  state before, and \<^verbatim>\<open>Get\<close> of it then finds nothing, at any reading of the clock.
  \<^verbatim>\<open>Delete\<close> of a key that is stored in none of the three stores returns the state
  unchanged. \<^verbatim>\<open>Delete\<close> is a total function: it has no failing case.
\<close>

theorem Delete_complete:
  "k \<notin> set (lru_keys (recent (Delete k c))) \<and>
   k \<notin> set (lru_keys (frequent (Delete k c))) \<and>
   k \<notin> set (lru_keys (recentEvict (Delete k c))) \<and>
   fst (Get now k (Delete k c)) = None \<and>
   (k \<notin> set (lru_keys (recent c)) \<and> k \<notin> set (lru_keys (frequent c)) \<and>
    k \<notin> set (lru_keys (recentEvict c)) \<longrightarrow> Delete k c = c)"
proof -
  have "fst (Get now k (Delete k c)) = None"
    using lru_Delete_miss [of now k "frequent c"] lru_Delete_miss [of now k "recent c"]
    by (simp add: Get_eq Delete_def)
  moreover have "Delete k c = c"
    if "k \<notin> set (lru_keys (recent c)) \<and> k \<notin> set (lru_keys (frequent c)) \<and>
        k \<notin> set (lru_keys (recentEvict c))"
    using that by (simp add: Delete_def lru_Delete_absent)
  ultimately show ?thesis by (simp add: Delete_def lru_Delete_gone)
qed

theorem Delete_complete_witness:
  "fst (Get 0 ''2'' (st4 [e4, e6] [e2, e5] [g1, g3])) = Some ''two'' \<and>
   fst (Get 0 ''2'' (Delete ''2'' (st4 [e4, e6] [e2, e5] [g1, g3]))) = None \<and>
   ''1'' \<notin> set (lru_keys (recentEvict (Delete ''1'' (st4 [e4, e6] [e2, e5] [g1, g3])))) \<and>
   ''9'' \<notin> set (lru_keys (recent (st4 [e4, e6] [e2, e5] [g1, g3]))) \<and>
   ''9'' \<notin> set (lru_keys (frequent (st4 [e4, e6] [e2, e5] [g1, g3]))) \<and>
   ''9'' \<notin> set (lru_keys (recentEvict (st4 [e4, e6] [e2, e5] [g1, g3]))) \<and>
   Delete ''9'' (st4 [e4, e6] [e2, e5] [g1, g3]) = st4 [e4, e6] [e2, e5] [g1, g3]"
proof -
  have a: "''9'' \<notin> set (lru_keys (recent (st4 [e4, e6] [e2, e5] [g1, g3]))) \<and>
   ''9'' \<notin> set (lru_keys (frequent (st4 [e4, e6] [e2, e5] [g1, g3]))) \<and>
   ''9'' \<notin> set (lru_keys (recentEvict (st4 [e4, e6] [e2, e5] [g1, g3])))"
    by (simp add: st4_def ent_defs lru_keys_def)
  have b: "fst (Get 0 ''2'' (st4 [e4, e6] [e2, e5] [g1, g3])) = Some ''two''"
    by (simp add: get_2_still)
  show ?thesis
    using a b Delete_complete [of "''9''" "st4 [e4, e6] [e2, e5] [g1, g3]" 0]
      Delete_complete [of "''2''" "st4 [e4, e6] [e2, e5] [g1, g3]" 0]
      Delete_complete [of "''1''" "st4 [e4, e6] [e2, e5] [g1, g3]" 0]
    by blast
qed

text \<open>
  C10. \<^verbatim>\<open>New\<close> returns a nil error for every capacity, and a nil cache exactly when
  the capacity is not positive.
\<close>

theorem New_error_nil:
  "snd (New sz :: ('k, 'v) TwoQueueCache option \<times> string option) = None \<and>
   (fst (New sz :: ('k, 'v) TwoQueueCache option \<times> string option) = None) = (sz \<le> 0)"
  by (simp add: New_def New2QParams_def Default2QRecentRatio_def Default2QGhostEntries_def
      f_gt_def Let_def)

theorem New_error_nil_witness:
  "snd (New (- 3) :: (string, string) TwoQueueCache option \<times> string option) = None \<and>
   fst (New (- 3) :: (string, string) TwoQueueCache option \<times> string option) = None \<and>
   snd (New 0 :: (string, string) TwoQueueCache option \<times> string option) = None \<and>
   fst (New 0 :: (string, string) TwoQueueCache option \<times> string option) = None \<and>
   snd (New 4 :: (string, string) TwoQueueCache option \<times> string option) = None \<and>
   fst (New 4 :: (string, string) TwoQueueCache option \<times> string option) \<noteq> None"
  using New_error_nil [of "- 3", where ?'k = string and ?'v = string]
    New_error_nil [of 0, where ?'k = string and ?'v = string]
    New_error_nil [of 4, where ?'k = string and ?'v = string]
  by simp

end
